theory Spec2Isabelle
  imports Main
begin

section \<open>The AST the pass works on\<close>

text \<open>
  The pass \<^verbatim>\<open>RemoveNestedFunctions\<close> (compiler/traversals/removeNestedFunctions.cpp)
  lifts every function defined inside another function to module level. It reads
  and mutates the compiler's AST through pointers. The model keeps the parts of
  the AST that the pass looks at:

  \<^item> a \<^verbatim>\<open>Symbol\<close> is an object with an identity, a dynamic class
    (\<^verbatim>\<open>dynamic_cast<FnSymbol*>\<close>), a \<^verbatim>\<open>name\<close> and a \<^verbatim>\<open>type\<close>;
  \<^item> an \<^verbatim>\<open>Expr\<close> is a \<^verbatim>\<open>SymExpr\<close>, a \<^verbatim>\<open>CallExpr\<close> (\<^verbatim>\<open>baseExpr\<close>, \<^verbatim>\<open>argList\<close>)
    or a \<^verbatim>\<open>DefExpr\<close> (\<^verbatim>\<open>sym\<close>; for a \<^verbatim>\<open>FnSymbol\<close> the symbol's \<^verbatim>\<open>formals\<close> and
    \<^verbatim>\<open>body\<close>, empty for any other symbol);
  \<^item> a \<^verbatim>\<open>Stmt\<close> is an \<^verbatim>\<open>ExprStmt\<close>, a block or a conditional.

  A pointer that may be null is an \<open>option\<close>; two symbols are the same object when
  they are equal, and a new object gets the next unused \<open>sym_id\<close>.
\<close>

datatype intentTag = INTENT_BLANK | INTENT_IN | INTENT_INOUT | INTENT_OUT | INTENT_REF

datatype symKind = SYMBOL_VAR | SYMBOL_ARG intentTag | SYMBOL_FN | SYMBOL_MODULE

record symbol =
  sym_id :: nat
  sym_kind :: symKind
  sym_name :: string
  sym_type :: string

datatype expr =
    SymExpr symbol
  | CallExpr expr "expr list"
  | DefExpr symbol "expr list" "stmt list"
and stmt =
    ExprStmt expr
  | BlockStmt "stmt list"
  | CondStmt expr "stmt list" "stmt list"

datatype error = NullDereference

fun def_sym :: "expr \<Rightarrow> symbol option" where
  "def_sym (DefExpr s formals body) = Some s"
| "def_sym e = None"

fun def_formals :: "expr \<Rightarrow> expr list" where
  "def_formals (DefExpr s formals body) = formals"
| "def_formals e = []"

fun def_body :: "expr \<Rightarrow> stmt list" where
  "def_body (DefExpr s formals body) = body"
| "def_body e = []"

fun call_base :: "expr \<Rightarrow> expr option" where
  "call_base (CallExpr b args) = Some b"
| "call_base e = None"


subsection \<open>Containers\<close>

text \<open>
  \<^verbatim>\<open>Vec<T>\<close> is a list; \<^verbatim>\<open>add\<close> appends, \<^verbatim>\<open>add_exclusive\<close> appends an element that
  is not yet in the vector, \<^verbatim>\<open>in\<close> is membership and \<^verbatim>\<open>length()\<close> (the field
  \<^verbatim>\<open>n\<close>) counts every slot, null ones too. \<^verbatim>\<open>Map<K,V>\<close> is a partial function;
  \<^verbatim>\<open>get\<close> of a missing key is the null pointer \<open>None\<close>.
\<close>

definition add_exclusive :: "'a list \<Rightarrow> 'a \<Rightarrow> 'a list" where
  "add_exclusive v a = (if a \<in> set v then v else v @ [a])"

subsection \<open>Collaborators that are not part of the pass\<close>

text \<open>
  Modelled from the spec: \<^verbatim>\<open>UpdateSymbols\<close> (its traversal class is included by the
  pass but defined elsewhere) is the mutation primitive "substitute one symbol for
  another throughout a subtree": every symbol reference (\<^verbatim>\<open>SymExpr\<close>) whose symbol
  is a key of the map is redirected to the map's value.
\<close>

definition subst_sym :: "(symbol \<rightharpoonup> symbol) \<Rightarrow> symbol \<Rightarrow> symbol" where
  "subst_sym m s = (case m s of None \<Rightarrow> s | Some t \<Rightarrow> t)"

fun UpdateSymbols_expr :: "(symbol \<rightharpoonup> symbol) \<Rightarrow> expr \<Rightarrow> expr"
  and UpdateSymbols_stmt :: "(symbol \<rightharpoonup> symbol) \<Rightarrow> stmt \<Rightarrow> stmt" where
  "UpdateSymbols_expr m (SymExpr s) = SymExpr (subst_sym m s)"
| "UpdateSymbols_expr m (CallExpr b args) =
     CallExpr (UpdateSymbols_expr m b) (map (UpdateSymbols_expr m) args)"
| "UpdateSymbols_expr m (DefExpr s formals body) =
     DefExpr s (map (UpdateSymbols_expr m) formals) (map (UpdateSymbols_stmt m) body)"
| "UpdateSymbols_stmt m (ExprStmt e) = ExprStmt (UpdateSymbols_expr m e)"
| "UpdateSymbols_stmt m (BlockStmt ss) = BlockStmt (map (UpdateSymbols_stmt m) ss)"
| "UpdateSymbols_stmt m (CondStmt c ss1 ss2) =
     CondStmt (UpdateSymbols_expr m c) (map (UpdateSymbols_stmt m) ss1)
       (map (UpdateSymbols_stmt m) ss2)"

text \<open>
  Modelled from the spec: \<^verbatim>\<open>Symboltable::defineParam(intent, name, NULL, NULL)\<close>
  (symtab.h is included, its code is elsewhere) makes the definition of a new
  formal parameter: a \<^verbatim>\<open>DefExpr\<close> of a new \<^verbatim>\<open>ArgSymbol\<close> with this intent and
  name and no type yet. \<open>n\<close> is the identity of the new object.
\<close>

definition defineParam :: "intentTag \<Rightarrow> string \<Rightarrow> nat \<Rightarrow> symbol" where
  "defineParam intent nm n =
     \<lparr>sym_id = n, sym_kind = SYMBOL_ARG intent, sym_name = nm, sym_type = []\<rparr>"

text \<open>
  Modelled from the spec: \<^verbatim>\<open>expr_stmt->copy(true)\<close> is the mutation primitive
  "deep-copy a function's defining statement". The copy defines a function symbol
  of its own (the pass records \<open>old \<mapsto> new\<close> for it); everything else in the copy
  refers to what the original referred to.
\<close>

fun copy_stmt :: "nat \<Rightarrow> stmt \<Rightarrow> stmt" where
  "copy_stmt n (ExprStmt (DefExpr s formals body)) =
     ExprStmt (DefExpr (s\<lparr>sym_id := n\<rparr>) formals body)"
| "copy_stmt n st = st"

text \<open>
  Modelled from the spec: \<^verbatim>\<open>CallExpr::findFnSymbol()\<close> gives the function symbol
  a call statically resolves to: the symbol of its \<^verbatim>\<open>baseExpr\<close> when that is a
  reference to a \<^verbatim>\<open>FnSymbol\<close>, null otherwise.
\<close>

fun findFnSymbol :: "expr \<Rightarrow> symbol option" where
  "findFnSymbol (CallExpr (SymExpr s) args) =
     (if sym_kind s = SYMBOL_FN then Some s else None)"
| "findFnSymbol e = None"

section \<open>The pass\<close>

text \<open>
  The four members of the class (removeNestedFunctions.h), and the counter that
  gives new objects their identity.
\<close>

record RemoveNestedFunctions =
  nested_func_args_map :: "symbol \<rightharpoonup> symbol option list"
  nested_func_sym_map :: "symbol \<rightharpoonup> symbol"
  fn_call_worklist :: "symbol list"
  fn_stmts_completed_so_far :: "stmt list"
  next_sym_id :: nat

text \<open>
  \<^verbatim>\<open>hasEnclosingFunction(fn_def)\<close> is \<^verbatim>\<open>dynamic_cast<FnSymbol*>(fn_def->parentSymbol)\<close>.
  The model passes the \<^verbatim>\<open>parentSymbol\<close> of the definition.
\<close>

definition hasEnclosingFunction :: "symbol \<Rightarrow> symbol option" where
  "hasEnclosingFunction parentSymbol =
     (if sym_kind parentSymbol = SYMBOL_FN then Some parentSymbol else None)"

text \<open>
  The loop of \<^verbatim>\<open>addNestedFuncFormals\<close> (lines 85-94): for every non-null symbol of
  the vector a new INOUT formal with the symbol's name and type is appended to the
  formals, and the update map sends the symbol to the formal.
\<close>

fun formals_loop ::
  "symbol option list \<Rightarrow> expr list \<Rightarrow> (symbol \<rightharpoonup> symbol) \<Rightarrow> nat
     \<Rightarrow> expr list \<times> (symbol \<rightharpoonup> symbol) \<times> nat" where
  "formals_loop [] formals update_map n = (formals, update_map, n)"
| "formals_loop (None # rest) formals update_map n = formals_loop rest formals update_map n"
| "formals_loop (Some var # rest) formals update_map n =
     (let formal = defineParam INTENT_INOUT (sym_name var) n;
          formal_sym = formal\<lparr>sym_type := sym_type var\<rparr>
      in formals_loop rest (formals @ [DefExpr formal_sym [] []])
           (update_map(var \<mapsto> formal_sym)) (Suc n))"

fun addNestedFuncFormals ::
  "expr \<Rightarrow> symbol option list \<Rightarrow> symbol \<Rightarrow> RemoveNestedFunctions
     \<Rightarrow> expr \<times> RemoveNestedFunctions" where
  "addNestedFuncFormals (DefExpr fn_sym formals body) encl_var_uses old_func_sym st =
     (if sym_kind fn_sym = SYMBOL_FN then
        (let st1 = st\<lparr>nested_func_sym_map := (nested_func_sym_map st)(old_func_sym \<mapsto> fn_sym)\<rparr>;
             (formals', update_map, n') =
                formals_loop encl_var_uses formals Map.empty (next_sym_id st1);
             body' = (if length encl_var_uses \<noteq> 0
                      then map (UpdateSymbols_stmt update_map) body else body)
         in (DefExpr fn_sym formals' body', st1\<lparr>next_sym_id := n'\<rparr>))
      else (DefExpr fn_sym formals body, st))"
| "addNestedFuncFormals e encl_var_uses old_func_sym st = (e, st)"

text \<open>The loop of \<^verbatim>\<open>addNestedFuncActuals\<close> (lines 108-111).\<close>

fun actuals_loop :: "symbol option list \<Rightarrow> expr list \<Rightarrow> expr list" where
  "actuals_loop [] argList = argList"
| "actuals_loop (None # rest) argList = actuals_loop rest argList"
| "actuals_loop (Some var # rest) argList = actuals_loop rest (argList @ [SymExpr var])"

fun addNestedFuncActuals ::
  "expr \<Rightarrow> symbol option list \<Rightarrow> symbol \<Rightarrow> RemoveNestedFunctions
     \<Rightarrow> expr \<times> RemoveNestedFunctions" where
  "addNestedFuncActuals (CallExpr baseExpr argList) encl_var_uses old_func_sym st =
     (let new_func_sym =
            (case nested_func_sym_map st old_func_sym of
               None \<Rightarrow> None
             | Some s \<Rightarrow> if sym_kind s = SYMBOL_FN then Some s else None);
          argList' = actuals_loop encl_var_uses argList
      in case new_func_sym of
           Some s \<Rightarrow> (CallExpr (SymExpr s) argList', st)
         | None \<Rightarrow>
             (CallExpr baseExpr argList',
              st\<lparr>fn_call_worklist := add_exclusive (fn_call_worklist st) old_func_sym\<rparr>))"
| "addNestedFuncActuals e encl_var_uses old_func_sym st = (e, st)"

text \<open>\<^verbatim>\<open>postProcessExpr\<close> (lines 47-56).\<close>

definition postProcessExpr ::
  "expr \<Rightarrow> RemoveNestedFunctions \<Rightarrow> expr \<times> RemoveNestedFunctions" where
  "postProcessExpr e st =
     (case e of
        CallExpr baseExpr argList \<Rightarrow>
          (case findFnSymbol e of
             Some fn_sym \<Rightarrow>
               (case nested_func_args_map st fn_sym of
                  Some encl_func_var_uses \<Rightarrow>
                    addNestedFuncActuals e encl_func_var_uses fn_sym st
                | None \<Rightarrow> (e, st))
           | None \<Rightarrow> (e, st))
      | _ \<Rightarrow> (e, st))"

text \<open>
  \<^verbatim>\<open>postProcessStmt\<close> (lines 17-45). The statement is given with the
  \<^verbatim>\<open>parentSymbol\<close> of its expression. The result is the statement left at the
  place visited (\<open>None\<close> after \<^verbatim>\<open>expr_stmt->remove()\<close>) and the new state.

  Line 32 appends the copy to the statements of the module and line 33 appends the
  same object to \<^verbatim>\<open>_fn_stmts_completed_so_far\<close> (a new object is in no vector, so
  \<^verbatim>\<open>add_exclusive\<close> appends). The traversal of line 37 mutates these objects in
  place, so the statements appended to the module are at every moment the
  statements of \<open>fn_stmts_completed_so_far\<close>, and the model keeps the one list.
  The capture vector is dereferenced by \<^verbatim>\<open>addNestedFuncFormals\<close>; a null one is the
  error \<open>NullDereference\<close>.
\<close>

fun postProcessStmt ::
  "symbol \<Rightarrow> stmt \<Rightarrow> RemoveNestedFunctions
     \<Rightarrow> error + (stmt option \<times> RemoveNestedFunctions)" where
  "postProcessStmt parentSymbol (ExprStmt (DefExpr fn_sym formals body)) st =
     (if sym_kind fn_sym = SYMBOL_FN \<and> hasEnclosingFunction parentSymbol \<noteq> None then
        (case nested_func_args_map st fn_sym of
           None \<Rightarrow> Inl NullDereference
         | Some encl_func_var_uses \<Rightarrow>
             (let fn_copy = copy_stmt (next_sym_id st) (ExprStmt (DefExpr fn_sym formals body));
                  st1 = st\<lparr>next_sym_id := Suc (next_sym_id st)\<rparr>;
                  (e', st2) =
                     (case fn_copy of
                        ExprStmt e \<Rightarrow> addNestedFuncFormals e encl_func_var_uses fn_sym st1
                      | _ \<Rightarrow> (DefExpr fn_sym formals body, st1));
                  st3 = st2\<lparr>fn_stmts_completed_so_far :=
                              fn_stmts_completed_so_far st2 @ [ExprStmt e']\<rparr>;
                  st4 = (if fn_sym \<in> set (fn_call_worklist st3)
                         then st3\<lparr>fn_stmts_completed_so_far :=
                                map (UpdateSymbols_stmt (nested_func_sym_map st3))
                                  (fn_stmts_completed_so_far st3)\<rparr>
                         else st3)
              in Inr (None, st4)))
      else Inr (Some (ExprStmt (DefExpr fn_sym formals body)), st))"
| "postProcessStmt parentSymbol s st = Inr (Some s, st)"

section \<open>The capture analysis of the constructor\<close>

type_synonym args_map = "symbol \<rightharpoonup> symbol option list"

text \<open>
  \<^verbatim>\<open>getEnclosingFuncVarUses\<close> (lines 72-76) builds a \<^verbatim>\<open>FindEnclosingScopeVarUses\<close>
  traversal over the defining statement of the function and returns its
  \<^verbatim>\<open>getVarUses()\<close>. The class is declared in findEnclosingScopeVarUses.h, which is
  not part of the sources, so the traversal is a parameter of the model: from the
  function, the map and the vector of functions in process it gives the variable
  uses found, and the map and the vector as it leaves them (it holds pointers to
  both).
\<close>

type_synonym var_uses_traversal =
  "symbol \<Rightarrow> args_map \<Rightarrow> symbol list \<Rightarrow> symbol option list \<times> args_map \<times> symbol list"

definition getEnclosingFuncVarUses ::
  "var_uses_traversal \<Rightarrow> symbol \<Rightarrow> args_map \<Rightarrow> symbol list
     \<Rightarrow> symbol option list \<times> args_map \<times> symbol list" where
  "getEnclosingFuncVarUses fesv fn_sym m in_process_fns = fesv fn_sym m in_process_fns"

text \<open>\<^verbatim>\<open>findEnclScopeVarUses\<close> (lines 58-65); \<^verbatim>\<open>pop\<close> drops the last element.\<close>

definition findEnclScopeVarUses ::
  "var_uses_traversal \<Rightarrow> symbol \<Rightarrow> args_map \<Rightarrow> symbol list \<Rightarrow> args_map \<times> symbol list" where
  "findEnclScopeVarUses fesv fn_sym m in_process_fns =
     (let in_process1 = in_process_fns @ [fn_sym];
          (encl_func_var_uses, m1, in_process2) =
             getEnclosingFuncVarUses fesv fn_sym m in_process1
      in (m1(fn_sym \<mapsto> encl_func_var_uses), butlast in_process2))"

text \<open>
  \<^verbatim>\<open>enclVarUsesHelper\<close> (lines 123-161). \<^verbatim>\<open>collect_functions\<close> fills
  \<open>all_functions\<close>; the model pairs every function symbol with the
  \<^verbatim>\<open>parentSymbol\<close> of its \<^verbatim>\<open>defPoint\<close>, which is all the pass reads of it.
\<close>

definition find_nested_functions :: "(symbol \<times> symbol) list \<Rightarrow> symbol list" where
  "find_nested_functions all_functions =
     foldl (\<lambda>all_nested (fn_sym, parentSymbol).
              if hasEnclosingFunction parentSymbol \<noteq> None
              then add_exclusive all_nested fn_sym else all_nested)
       [] all_functions"

definition initial_args_map :: "symbol list \<Rightarrow> args_map \<Rightarrow> args_map" where
  "initial_args_map all_nested m = foldl (\<lambda>m fn_sym. m(fn_sym \<mapsto> [])) m all_nested"

text \<open>Lines 144-146: one call of \<^verbatim>\<open>findEnclScopeVarUses\<close> per nested function.\<close>

definition find_round :: "var_uses_traversal \<Rightarrow> symbol list \<Rightarrow> args_map \<Rightarrow> args_map" where
  "find_round fesv all_nested encl_var_use_map =
     foldl (\<lambda>m fn_sym. fst (findEnclScopeVarUses fesv fn_sym m [])) encl_var_use_map all_nested"

text \<open>
  Lines 148-159: the comparison of the lengths. Both vectors are dereferenced, so
  a missing entry of either map is a null dereference.
\<close>

fun compare_round ::
  "symbol list \<Rightarrow> args_map \<Rightarrow> args_map \<Rightarrow> bool \<Rightarrow> error + (args_map \<times> bool)" where
  "compare_round [] encl_var_use_map global change = Inr (global, change)"
| "compare_round (fn_sym # rest) encl_var_use_map global change =
     (case encl_var_use_map fn_sym of
        None \<Rightarrow> Inl NullDereference
      | Some iteration_encl_var_vec \<Rightarrow>
          (case global fn_sym of
             None \<Rightarrow> Inl NullDereference
           | Some global_encl_var_vec \<Rightarrow>
               if length global_encl_var_vec \<noteq> length iteration_encl_var_vec
               then compare_round rest encl_var_use_map
                      (global(fn_sym \<mapsto> foldl add_exclusive global_encl_var_vec
                                              iteration_encl_var_vec))
                      True
               else compare_round rest encl_var_use_map global change))"

text \<open>
  The \<^verbatim>\<open>do ... while(change)\<close> loop of lines 141-160. A run of the loop that never
  ends is the value \<open>None\<close>.
\<close>

partial_function (option) fixpoint_loop ::
  "var_uses_traversal \<Rightarrow> symbol list \<Rightarrow> args_map \<Rightarrow> args_map \<Rightarrow> (error + args_map) option" where
  "fixpoint_loop fesv all_nested encl_var_use_map global =
     (let encl_var_use_map' = find_round fesv all_nested encl_var_use_map
      in case compare_round all_nested encl_var_use_map' global False of
           Inl e \<Rightarrow> Some (Inl e)
         | Inr (global', change) \<Rightarrow>
             if change then fixpoint_loop fesv all_nested encl_var_use_map' global'
             else Some (Inr global'))"

declare fixpoint_loop.simps [code]

definition enclVarUsesHelper ::
  "var_uses_traversal \<Rightarrow> (symbol \<times> symbol) list \<Rightarrow> RemoveNestedFunctions
     \<Rightarrow> (error + RemoveNestedFunctions) option" where
  "enclVarUsesHelper fesv all_functions st =
     (let all_nested_functions = find_nested_functions all_functions;
          m0 = initial_args_map all_nested_functions (nested_func_args_map st)
      in case fixpoint_loop fesv all_nested_functions Map.empty m0 of
           None \<Rightarrow> None
         | Some (Inl e) \<Rightarrow> Some (Inl e)
         | Some (Inr m) \<Rightarrow> Some (Inr (st\<lparr>nested_func_args_map := m\<rparr>)))"

text \<open>
  The constructor (lines 8-15): empty maps and vectors, then the analysis.
  \<open>n\<close> is the first identity not used by any object of the program.
\<close>

definition RemoveNestedFunctions_new ::
  "var_uses_traversal \<Rightarrow> (symbol \<times> symbol) list \<Rightarrow> nat
     \<Rightarrow> (error + RemoveNestedFunctions) option" where
  "RemoveNestedFunctions_new fesv all_functions n =
     enclVarUsesHelper fesv all_functions
       \<lparr>nested_func_args_map = Map.empty, nested_func_sym_map = Map.empty,
        fn_call_worklist = [], fn_stmts_completed_so_far = [], next_sym_id = n\<rparr>"



section \<open>The walk over a module\<close>

text \<open>
  Modelled from the spec: \<^verbatim>\<open>collect_functions\<close> (its code is not part of the
  sources) enumerates all function symbols: every \<^verbatim>\<open>DefExpr\<close> of a \<^verbatim>\<open>FnSymbol\<close>
  of the module, here with the \<^verbatim>\<open>parentSymbol\<close> of the definition, which is the
  closest symbol whose definition encloses it.
\<close>

fun collect_functions_expr :: "symbol \<Rightarrow> expr \<Rightarrow> (symbol \<times> symbol) list"
  and collect_functions_stmt :: "symbol \<Rightarrow> stmt \<Rightarrow> (symbol \<times> symbol) list" where
  "collect_functions_expr p (SymExpr s) = []"
| "collect_functions_expr p (CallExpr b args) =
     collect_functions_expr p b @ concat (map (collect_functions_expr p) args)"
| "collect_functions_expr p (DefExpr s formals body) =
     (if sym_kind s = SYMBOL_FN
      then (s, p) # concat (map (collect_functions_expr s) formals)
             @ concat (map (collect_functions_stmt s) body)
      else concat (map (collect_functions_expr p) formals)
             @ concat (map (collect_functions_stmt p) body))"
| "collect_functions_stmt p (ExprStmt e) = collect_functions_expr p e"
| "collect_functions_stmt p (BlockStmt ss) = concat (map (collect_functions_stmt p) ss)"
| "collect_functions_stmt p (CondStmt c ss1 ss2) =
     collect_functions_expr p c @ concat (map (collect_functions_stmt p) ss1)
       @ concat (map (collect_functions_stmt p) ss2)"

text \<open>
  Modelled from the spec: the traversal framework (traversal.h, not part of the
  sources) "calls back into this pass once per statement (post-order) and once per
  expression (post-order) during a single module-wide walk", in textual order.
  \<open>p\<close> is the \<^verbatim>\<open>parentSymbol\<close> of the node visited. A statement that its callback
  removed leaves the list it was in.
\<close>

fun traverse_expr ::
    "symbol \<Rightarrow> expr \<Rightarrow> RemoveNestedFunctions \<Rightarrow> error + (expr \<times> RemoveNestedFunctions)"
  and traverse_exprs ::
    "symbol \<Rightarrow> expr list \<Rightarrow> RemoveNestedFunctions
       \<Rightarrow> error + (expr list \<times> RemoveNestedFunctions)"
  and traverse_stmt ::
    "symbol \<Rightarrow> stmt \<Rightarrow> RemoveNestedFunctions
       \<Rightarrow> error + (stmt option \<times> RemoveNestedFunctions)"
  and traverse_stmts ::
    "symbol \<Rightarrow> stmt list \<Rightarrow> RemoveNestedFunctions
       \<Rightarrow> error + (stmt list \<times> RemoveNestedFunctions)" where
  "traverse_expr p (SymExpr s) st = Inr (postProcessExpr (SymExpr s) st)"
| "traverse_expr p (CallExpr b args) st =
     (case traverse_expr p b st of
        Inl e \<Rightarrow> Inl e
      | Inr (b', st1) \<Rightarrow>
          (case traverse_exprs p args st1 of
             Inl e \<Rightarrow> Inl e
           | Inr (args', st2) \<Rightarrow> Inr (postProcessExpr (CallExpr b' args') st2)))"
| "traverse_expr p (DefExpr s formals body) st =
     (case traverse_exprs (if sym_kind s = SYMBOL_FN then s else p) formals st of
        Inl e \<Rightarrow> Inl e
      | Inr (formals', st1) \<Rightarrow>
          (case traverse_stmts (if sym_kind s = SYMBOL_FN then s else p) body st1 of
             Inl e \<Rightarrow> Inl e
           | Inr (body', st2) \<Rightarrow> Inr (postProcessExpr (DefExpr s formals' body') st2)))"
| "traverse_exprs p [] st = Inr ([], st)"
| "traverse_exprs p (e # es) st =
     (case traverse_expr p e st of
        Inl x \<Rightarrow> Inl x
      | Inr (e', st1) \<Rightarrow>
          (case traverse_exprs p es st1 of
             Inl x \<Rightarrow> Inl x
           | Inr (es', st2) \<Rightarrow> Inr (e' # es', st2)))"
| "traverse_stmt p (ExprStmt e) st =
     (case traverse_expr p e st of
        Inl x \<Rightarrow> Inl x
      | Inr (e', st1) \<Rightarrow> postProcessStmt p (ExprStmt e') st1)"
| "traverse_stmt p (BlockStmt ss) st =
     (case traverse_stmts p ss st of
        Inl x \<Rightarrow> Inl x
      | Inr (ss', st1) \<Rightarrow> postProcessStmt p (BlockStmt ss') st1)"
| "traverse_stmt p (CondStmt c ss1 ss2) st =
     (case traverse_expr p c st of
        Inl x \<Rightarrow> Inl x
      | Inr (c', st1) \<Rightarrow>
          (case traverse_stmts p ss1 st1 of
             Inl x \<Rightarrow> Inl x
           | Inr (ss1', st2) \<Rightarrow>
               (case traverse_stmts p ss2 st2 of
                  Inl x \<Rightarrow> Inl x
                | Inr (ss2', st3) \<Rightarrow> postProcessStmt p (CondStmt c' ss1' ss2') st3)))"
| "traverse_stmts p [] st = Inr ([], st)"
| "traverse_stmts p (s # ss) st =
     (case traverse_stmt p s st of
        Inl x \<Rightarrow> Inl x
      | Inr (r, st1) \<Rightarrow>
          (case traverse_stmts p ss st1 of
             Inl x \<Rightarrow> Inl x
           | Inr (ss', st2) \<Rightarrow> Inr ((case r of None \<Rightarrow> ss' | Some s' \<Rightarrow> s' # ss'), st2)))"

text \<open>
  A module: its symbol and its top-level statements. The model follows the pass
  over one module: \<^verbatim>\<open>fn_sym->argScope->getModule()\<close> (line 27) is this module for
  every function in it. The pass is constructed on the module and walks its
  statements; the statements it appended (line 32) follow the statements that
  were there.
\<close>

record ModuleSymbol =
  mod_id :: nat
  mod_name :: string
  mod_stmts :: "stmt list"

definition module_sym :: "ModuleSymbol \<Rightarrow> symbol" where
  "module_sym m =
     \<lparr>sym_id = mod_id m, sym_kind = SYMBOL_MODULE, sym_name = mod_name m, sym_type = []\<rparr>"

definition run_traversal ::
  "var_uses_traversal \<Rightarrow> nat \<Rightarrow> ModuleSymbol
     \<Rightarrow> (error + (stmt list \<times> RemoveNestedFunctions)) option" where
  "run_traversal fesv n m =
     (case RemoveNestedFunctions_new fesv
             (concat (map (collect_functions_stmt (module_sym m)) (mod_stmts m))) n of
        None \<Rightarrow> None
      | Some (Inl e) \<Rightarrow> Some (Inl e)
      | Some (Inr st) \<Rightarrow> Some (traverse_stmts (module_sym m) (mod_stmts m) st))"

definition run_pass ::
  "var_uses_traversal \<Rightarrow> nat \<Rightarrow> ModuleSymbol \<Rightarrow> (error + ModuleSymbol) option" where
  "run_pass fesv n m =
     (case run_traversal fesv n m of
        None \<Rightarrow> None
      | Some (Inl e) \<Rightarrow> Some (Inl e)
      | Some (Inr (stmts', st')) \<Rightarrow>
          Some (Inr (m\<lparr>mod_stmts := stmts' @ fn_stmts_completed_so_far st'\<rparr>)))"

section \<open>Two small programs\<close>

text \<open>
  Scenario A of the specification: inside \<open>f\<close>, the nested function \<open>g\<close> reads
  the variable \<open>x\<close> of \<open>f\<close> and is called once before and once after its
  definition.
  \<^verbatim>\<open>
  def f() { var x: int; g(); def g() { writeln(x); } g(); }
  \<close>
  Scenario B is the same program with a \<open>g\<close> that captures nothing:
  \<^verbatim>\<open>
  def f() { var x: int; g(); def g() { writeln(); } g(); }
  \<close>
\<close>

definition fn_f :: symbol where
  "fn_f = \<lparr>sym_id = 1, sym_kind = SYMBOL_FN, sym_name = ''f'', sym_type = []\<rparr>"

definition fn_g :: symbol where
  "fn_g = \<lparr>sym_id = 2, sym_kind = SYMBOL_FN, sym_name = ''g'', sym_type = []\<rparr>"

definition var_x :: symbol where
  "var_x = \<lparr>sym_id = 3, sym_kind = SYMBOL_VAR, sym_name = ''x'', sym_type = ''int''\<rparr>"

definition fn_writeln :: symbol where
  "fn_writeln = \<lparr>sym_id = 4, sym_kind = SYMBOL_FN, sym_name = ''writeln'', sym_type = []\<rparr>"

definition scenario_A :: ModuleSymbol where
  "scenario_A =
     \<lparr>mod_id = 0, mod_name = ''A'', mod_stmts =
        [ExprStmt (DefExpr fn_f []
           [ExprStmt (DefExpr var_x [] []),
            ExprStmt (CallExpr (SymExpr fn_g) []),
            ExprStmt (DefExpr fn_g [] [ExprStmt (CallExpr (SymExpr fn_writeln) [SymExpr var_x])]),
            ExprStmt (CallExpr (SymExpr fn_g) [])])]\<rparr>"

definition scenario_B :: ModuleSymbol where
  "scenario_B =
     \<lparr>mod_id = 0, mod_name = ''B'', mod_stmts =
        [ExprStmt (DefExpr fn_f []
           [ExprStmt (DefExpr var_x [] []),
            ExprStmt (CallExpr (SymExpr fn_g) []),
            ExprStmt (DefExpr fn_g [] [ExprStmt (CallExpr (SymExpr fn_writeln) [])]),
            ExprStmt (CallExpr (SymExpr fn_g) [])])]\<rparr>"

text \<open>
  The variable uses a traversal of \<open>g\<close> finds in the two programs: \<open>x\<close> in
  scenario A, nothing in scenario B.
\<close>

definition uses_A :: var_uses_traversal where
  "uses_A fn_sym m in_process_fns = ([Some var_x], m, in_process_fns)"

definition uses_B :: var_uses_traversal where
  "uses_B fn_sym m in_process_fns = ([], m, in_process_fns)"

definition empty_pass :: "nat \<Rightarrow> RemoveNestedFunctions" where
  "empty_pass n =
     \<lparr>nested_func_args_map = Map.empty, nested_func_sym_map = Map.empty,
      fn_call_worklist = [], fn_stmts_completed_so_far = [], next_sym_id = n\<rparr>"

text \<open>
  The formal that \<^verbatim>\<open>addNestedFuncFormals\<close> makes for the captured variable \<open>v\<close>,
  as the object \<open>k\<close>: INOUT intent, the name and the type of \<open>v\<close>.
\<close>

definition new_formal :: "symbol \<Rightarrow> nat \<Rightarrow> symbol" where
  "new_formal v k =
     \<lparr>sym_id = k, sym_kind = SYMBOL_ARG INTENT_INOUT, sym_name = sym_name v,
      sym_type = sym_type v\<rparr>"

definition capture_formals :: "symbol list \<Rightarrow> nat \<Rightarrow> symbol list" where
  "capture_formals vs n = map (\<lambda>(v, k). new_formal v k) (zip vs [n ..< n + length vs])"

text \<open>The symbols an expression or a statement refers to, in textual order.\<close>

fun refs_expr :: "expr \<Rightarrow> symbol list"
  and refs_stmt :: "stmt \<Rightarrow> symbol list" where
  "refs_expr (SymExpr s) = [s]"
| "refs_expr (CallExpr b args) = refs_expr b @ concat (map refs_expr args)"
| "refs_expr (DefExpr s formals body) =
     concat (map refs_expr formals) @ concat (map refs_stmt body)"
| "refs_stmt (ExprStmt e) = refs_expr e"
| "refs_stmt (BlockStmt ss) = concat (map refs_stmt ss)"
| "refs_stmt (CondStmt c ss1 ss2) =
     refs_expr c @ concat (map refs_stmt ss1) @ concat (map refs_stmt ss2)"

text \<open>
  The state of the pass in scenario A when the walk reaches the definition of
  \<open>g\<close>: the analysis has found that \<open>g\<close> captures \<open>x\<close>, and the call before the
  definition has put \<open>g\<close> on the worklist.
\<close>

definition pending_A :: RemoveNestedFunctions where
  "pending_A =
     \<lparr>nested_func_args_map = [fn_g \<mapsto> [Some var_x]], nested_func_sym_map = Map.empty,
      fn_call_worklist = [fn_g], fn_stmts_completed_so_far = [], next_sym_id = 5\<rparr>"

definition def_of_g :: stmt where
  "def_of_g = ExprStmt (DefExpr fn_g [] [ExprStmt (CallExpr (SymExpr fn_writeln) [SymExpr var_x])])"

subsection \<open>Well-formed programs\<close>

text \<open>
  A function is defined by a statement: in a well-formed program the \<^verbatim>\<open>DefExpr\<close> of
  a \<^verbatim>\<open>FnSymbol\<close> is the expression of an \<^verbatim>\<open>ExprStmt\<close> and stands nowhere else, and
  only the \<^verbatim>\<open>DefExpr\<close> of a \<^verbatim>\<open>FnSymbol\<close> has formals and a body.
\<close>

fun fn_free :: "expr \<Rightarrow> bool" where
  "fn_free (SymExpr s) = True"
| "fn_free (CallExpr b args) = (fn_free b \<and> list_all fn_free args)"
| "fn_free (DefExpr s formals body) = (sym_kind s \<noteq> SYMBOL_FN \<and> formals = [] \<and> body = [])"

fun well_formed :: "stmt \<Rightarrow> bool" where
  "well_formed (ExprStmt (DefExpr s formals body)) =
     (if sym_kind s = SYMBOL_FN then list_all fn_free formals \<and> list_all well_formed body
      else formals = [] \<and> body = [])"
| "well_formed (ExprStmt e) = fn_free e"
| "well_formed (BlockStmt ss) = list_all well_formed ss"
| "well_formed (CondStmt c ss1 ss2) =
     (fn_free c \<and> list_all well_formed ss1 \<and> list_all well_formed ss2)"

text \<open>
  The functions of a module with the \<^verbatim>\<open>parentSymbol\<close> of their definitions, and
  those of them that are nested: defined inside a function.
\<close>

definition module_functions :: "ModuleSymbol \<Rightarrow> (symbol \<times> symbol) list" where
  "module_functions m = concat (map (collect_functions_stmt (module_sym m)) (mod_stmts m))"

definition nested_definitions :: "ModuleSymbol \<Rightarrow> (symbol \<times> symbol) list" where
  "nested_definitions m = filter (\<lambda>(fn_sym, parentSymbol). sym_kind parentSymbol = SYMBOL_FN)
                            (module_functions m)"

subsection \<open>Measures of the fixed-point loop\<close>



subsection \<open>Functions with an entry in the CaptureSet map\<close>

text \<open>
  A list of functions (with the \<^verbatim>\<open>parentSymbol\<close> of their definitions) is covered
  by a map when every function of it that is defined inside a function has an
  entry.
\<close>

definition covered :: "args_map \<Rightarrow> (symbol \<times> symbol) list \<Rightarrow> bool" where
  "covered m fs = (\<forall>(f, q) \<in> set fs. sym_kind q = SYMBOL_FN \<longrightarrow> m f \<noteq> None)"

subsection \<open>Nested definitions\<close>

text \<open>
  A list of functions has no nested one when no \<^verbatim>\<open>parentSymbol\<close> in it is a
  function; \<open>count_nested\<close> counts the nested ones. \<open>own_def q e\<close> is the function
  that the expression \<open>e\<close> itself defines, under the parent \<open>q\<close>. The lifted
  copies are in order when none of them, placed at module level, holds a nested
  definition.
\<close>

definition no_nested :: "(symbol \<times> symbol) list \<Rightarrow> bool" where
  "no_nested fs = (\<forall>(f, q) \<in> set fs. sym_kind q \<noteq> SYMBOL_FN)"

definition count_nested :: "(symbol \<times> symbol) list \<Rightarrow> nat" where
  "count_nested fs = length (filter (\<lambda>(f, q). sym_kind q = SYMBOL_FN) fs)"

definition own_def :: "symbol \<Rightarrow> expr \<Rightarrow> (symbol \<times> symbol) list" where
  "own_def q e =
     (case def_sym e of
        None \<Rightarrow> []
      | Some f \<Rightarrow> if sym_kind f = SYMBOL_FN then [(f, q)] else [])"

definition completed_ok :: "RemoveNestedFunctions \<Rightarrow> bool" where
  "completed_ok st =
     (\<forall>c \<in> set (fn_stmts_completed_so_far st).
        \<forall>q. sym_kind q \<noteq> SYMBOL_FN \<longrightarrow> no_nested (collect_functions_stmt q c))"

text \<open>The modules that the pass makes of scenario A and of scenario B.\<close>

definition lifted_A :: ModuleSymbol where
  "lifted_A =
     \<lparr>mod_id = 0, mod_name = ''A'', mod_stmts =
        [ExprStmt (DefExpr fn_f []
           [ExprStmt (DefExpr var_x [] []),
            ExprStmt (CallExpr (SymExpr fn_g) [SymExpr var_x]),
            ExprStmt (CallExpr (SymExpr (fn_g\<lparr>sym_id := 5\<rparr>)) [SymExpr var_x])]),
         ExprStmt (DefExpr (fn_g\<lparr>sym_id := 5\<rparr>) [DefExpr (new_formal var_x 6) [] []]
           [ExprStmt (CallExpr (SymExpr fn_writeln) [SymExpr (new_formal var_x 6)])])]\<rparr>"

definition lifted_B :: ModuleSymbol where
  "lifted_B =
     \<lparr>mod_id = 0, mod_name = ''B'', mod_stmts =
        [ExprStmt (DefExpr fn_f []
           [ExprStmt (DefExpr var_x [] []),
            ExprStmt (CallExpr (SymExpr fn_g) []),
            ExprStmt (CallExpr (SymExpr (fn_g\<lparr>sym_id := 5\<rparr>)) [])]),
         ExprStmt (DefExpr (fn_g\<lparr>sym_id := 5\<rparr>) []
           [ExprStmt (CallExpr (SymExpr fn_writeln) [])])]\<rparr>"

section \<open>Parameter and argument parity\<close>

lemma formals_loop_formals:
  "fst (formals_loop (map Some vs) formals um n) =
     formals @ map (\<lambda>(v, k). DefExpr (new_formal v k) [] []) (zip vs [n ..< n + length vs])"
proof (induction vs arbitrary: formals um n)
  case Nil
  show ?case by simp
next
  case (Cons v vs)
  have "[n ..< Suc n + length vs] = n # [Suc n ..< Suc n + length vs]"
    by (rule upt_conv_Cons) simp
  moreover have "n + length (v # vs) = Suc n + length vs"
    by simp
  ultimately have up: "[n ..< n + length (v # vs)] = n # [Suc n ..< Suc n + length vs]"
    by (simp only:)
  show ?case
    unfolding up by (simp add: Let_def defineParam_def new_formal_def Cons.IH)
qed


lemma addNestedFuncFormals_formals:
  assumes "sym_kind fn_sym = SYMBOL_FN"
  shows "def_formals (fst (addNestedFuncFormals (DefExpr fn_sym formals body) (map Some vs)
                             old_func_sym st)) =
         formals @ map (\<lambda>(v, k). DefExpr (new_formal v k) [] [])
                     (zip vs [next_sym_id st ..< next_sym_id st + length vs])"
  using assms formals_loop_formals [of vs formals Map.empty "next_sym_id st"]
  by (simp add: Let_def split_beta)




section \<open>What the callbacks leave unchanged\<close>

lemma formals_loop_next:
  "snd (snd (formals_loop cs formals um n)) = n + length (filter (\<lambda>c. c \<noteq> None) cs)"
proof (induction cs arbitrary: formals um n)
  case Nil
  show ?case by simp
next
  case (Cons c cs)
  show ?case by (cases c) (simp_all add: Let_def Cons.IH)
qed

lemma addNestedFuncFormals_snd:
  "sym_kind fn_sym = SYMBOL_FN \<Longrightarrow>
   snd (addNestedFuncFormals (DefExpr fn_sym formals body) cs old_func_sym st) =
     st\<lparr>nested_func_sym_map := (nested_func_sym_map st)(old_func_sym \<mapsto> fn_sym),
        next_sym_id := next_sym_id st + length (filter (\<lambda>c. c \<noteq> None) cs)\<rparr>"
  using formals_loop_next [of cs formals Map.empty "next_sym_id st"]
  by (simp add: Let_def split_beta)

lemma addNestedFuncActuals_state:
  "nested_func_args_map (snd (addNestedFuncActuals e cs old st)) = nested_func_args_map st"
  "nested_func_sym_map (snd (addNestedFuncActuals e cs old st)) = nested_func_sym_map st"
  "fn_stmts_completed_so_far (snd (addNestedFuncActuals e cs old st)) = fn_stmts_completed_so_far st"
  "next_sym_id (snd (addNestedFuncActuals e cs old st)) = next_sym_id st"
  "set (fn_call_worklist st) \<subseteq> set (fn_call_worklist (snd (addNestedFuncActuals e cs old st)))"
  by (cases e; auto simp: Let_def add_exclusive_def split: option.splits)+

lemma postProcessExpr_state:
  "nested_func_args_map (snd (postProcessExpr e st)) = nested_func_args_map st"
  "nested_func_sym_map (snd (postProcessExpr e st)) = nested_func_sym_map st"
  "fn_stmts_completed_so_far (snd (postProcessExpr e st)) = fn_stmts_completed_so_far st"
  "next_sym_id (snd (postProcessExpr e st)) = next_sym_id st"
  "set (fn_call_worklist st) \<subseteq> set (fn_call_worklist (snd (postProcessExpr e st)))"
  by (simp_all add: postProcessExpr_def addNestedFuncActuals_state
        del: addNestedFuncActuals.simps split: expr.splits option.splits)

lemma postProcessExpr_worklist:
  "fn_call_worklist s = w \<Longrightarrow> set w \<subseteq> set (fn_call_worklist (snd (postProcessExpr e s)))"
  using postProcessExpr_state(5) [of s e] by simp

section \<open>Calls of other functions\<close>

text \<open>
  C10. A call whose statically resolved target has no entry in the CaptureSet map
  (\<^verbatim>\<open>_nested_func_args_map\<close>), and any expression that resolves to no function
  symbol at all, is left as it is by \<^verbatim>\<open>postProcessExpr\<close>: the expression (its
  target and its argument list) and the state of the pass are unchanged.
\<close>

theorem other_calls_unchanged:
  assumes "\<forall>fn_sym. findFnSymbol e = Some fn_sym \<longrightarrow> nested_func_args_map st fn_sym = None"
  shows "postProcessExpr e st = (e, st)"
  using assms by (auto simp: postProcessExpr_def split: expr.splits option.splits)

theorem other_calls_unchanged_witness:
  "findFnSymbol (CallExpr (SymExpr fn_writeln) [SymExpr var_x]) = Some fn_writeln
   \<and> nested_func_args_map pending_A fn_writeln = None
   \<and> postProcessExpr (CallExpr (SymExpr fn_writeln) [SymExpr var_x]) pending_A =
       (CallExpr (SymExpr fn_writeln) [SymExpr var_x], pending_A)"
proof -
  have f: "findFnSymbol (CallExpr (SymExpr fn_writeln) [SymExpr var_x]) = Some fn_writeln"
    by (simp add: fn_writeln_def)
  have n: "nested_func_args_map pending_A fn_writeln = None"
    by (simp add: pending_A_def fn_writeln_def fn_g_def)
  have h: "\<forall>fn_sym. findFnSymbol (CallExpr (SymExpr fn_writeln) [SymExpr var_x]) = Some fn_sym
       \<longrightarrow> nested_func_args_map pending_A fn_sym = None"
    using f n by simp
  show ?thesis
    using f n other_calls_unchanged [OF h] by simp
qed

section \<open>The formals of a lifted function\<close>

lemma refs_UpdateSymbols:
  "refs_expr (UpdateSymbols_expr m e) = map (subst_sym m) (refs_expr e)"
  "refs_stmt (UpdateSymbols_stmt m s) = map (subst_sym m) (refs_stmt s)"
  by (induction m e and m s rule: UpdateSymbols_expr_UpdateSymbols_stmt.induct)
     (simp_all add: map_concat comp_def cong: map_cong)

lemma UpdateSymbols_empty:
  "UpdateSymbols_expr Map.empty e = e"
  "UpdateSymbols_stmt Map.empty s = s"
  by (induction "Map.empty :: symbol \<rightharpoonup> symbol" e and "Map.empty :: symbol \<rightharpoonup> symbol" s
        rule: UpdateSymbols_expr_UpdateSymbols_stmt.induct)
     (simp_all add: subst_sym_def map_idI)

lemma formals_loop_map:
  assumes "distinct vs"
  shows "fst (snd (formals_loop (map Some vs) formals um n)) s =
           (case map_of (zip vs (capture_formals vs n)) s of None \<Rightarrow> um s | Some a \<Rightarrow> Some a)"
  using assms
proof (induction vs arbitrary: formals um n)
  case Nil
  show ?case by (simp add: capture_formals_def)
next
  case (Cons v vs)
  have "[n ..< Suc n + length vs] = n # [Suc n ..< Suc n + length vs]"
    by (rule upt_conv_Cons) simp
  then have cf: "capture_formals (v # vs) n = new_formal v n # capture_formals vs (Suc n)"
    by (simp add: capture_formals_def)
  have nv: "map_of (zip vs (capture_formals vs (Suc n))) v = None"
    using Cons.prems by (auto simp: map_of_eq_None_iff capture_formals_def dest: set_zip_leftD)
  show ?case
    using Cons.prems nv
    by (simp add: cf Let_def defineParam_def new_formal_def [symmetric] Cons.IH split: option.splits)
qed

lemma capture_formals_length: "length (capture_formals vs n) = length vs"
  by (simp add: capture_formals_def)

lemma capture_formals_nth:
  "i < length vs \<Longrightarrow> capture_formals vs n ! i = new_formal (vs ! i) (n + i)"
  by (simp add: capture_formals_def)

lemma addNestedFuncFormals_body:
  assumes "sym_kind fn_sym = SYMBOL_FN" and "distinct vs"
  shows "def_body (fst (addNestedFuncFormals (DefExpr fn_sym formals body) (map Some vs)
                          old_func_sym st)) =
         map (UpdateSymbols_stmt (map_of (zip vs (capture_formals vs (next_sym_id st))))) body"
proof -
  let ?um = "fst (snd (formals_loop (map Some vs) formals Map.empty (next_sym_id st)))"
  have "?um s = map_of (zip vs (capture_formals vs (next_sym_id st))) s" for s
    using formals_loop_map [OF assms(2), of formals Map.empty "next_sym_id st" s]
    by (simp split: option.splits)
  then have um: "?um = map_of (zip vs (capture_formals vs (next_sym_id st)))"
    by (rule ext)
  show ?thesis
  proof (cases "vs = []")
    case True
    then show ?thesis
      using assms(1) by (simp add: capture_formals_def UpdateSymbols_empty map_idI)
  next
    case False
    then show ?thesis
      using assms(1) um by (simp add: Let_def split_beta)
  qed
qed

text \<open>
  C6. Let the CaptureSet of a nested function be the distinct variables \<open>vs\<close>.
  The lifted copy gets, after the formals it had, one new formal per captured
  variable in the order of \<open>vs\<close>; the formals are distinct objects; the \<open>i\<close>-th
  has INOUT intent and the type and name of the \<open>i\<close>-th captured variable, and
  the update map sends the \<open>i\<close>-th captured variable to it; in the body of the
  copy every reference to a symbol is the reference the update map gives for it
  (\<open>subst_sym\<close>: the formal for a captured variable, the symbol itself otherwise).
\<close>

theorem captured_variables_become_formals:
  assumes "sym_kind fn_sym = SYMBOL_FN" and "distinct vs"
  shows "def_formals (fst (addNestedFuncFormals (DefExpr fn_sym formals body) (map Some vs)
                             old_func_sym st)) =
           formals @ map (\<lambda>a. DefExpr a [] []) (capture_formals vs (next_sym_id st))
       \<and> length (capture_formals vs (next_sym_id st)) = length vs
       \<and> distinct (capture_formals vs (next_sym_id st))
       \<and> (\<forall>i < length vs.
             sym_kind (capture_formals vs (next_sym_id st) ! i) = SYMBOL_ARG INTENT_INOUT
           \<and> sym_type (capture_formals vs (next_sym_id st) ! i) = sym_type (vs ! i)
           \<and> sym_name (capture_formals vs (next_sym_id st) ! i) = sym_name (vs ! i)
           \<and> map_of (zip vs (capture_formals vs (next_sym_id st))) (vs ! i) =
               Some (capture_formals vs (next_sym_id st) ! i))
       \<and> concat (map refs_stmt
            (def_body (fst (addNestedFuncFormals (DefExpr fn_sym formals body) (map Some vs)
                              old_func_sym st)))) =
           map (subst_sym (map_of (zip vs (capture_formals vs (next_sym_id st)))))
             (concat (map refs_stmt body))"
proof (intro conjI allI impI)
  show "def_formals (fst (addNestedFuncFormals (DefExpr fn_sym formals body) (map Some vs)
                             old_func_sym st)) =
           formals @ map (\<lambda>a. DefExpr a [] []) (capture_formals vs (next_sym_id st))"
    using addNestedFuncFormals_formals [OF assms(1), of formals body vs old_func_sym st]
    by (simp add: capture_formals_def case_prod_unfold comp_def)
next
  show "length (capture_formals vs (next_sym_id st)) = length vs"
    by (rule capture_formals_length)
next
  have "map sym_id (capture_formals vs (next_sym_id st)) =
          [next_sym_id st ..< next_sym_id st + length vs]"
    by (simp add: capture_formals_def new_formal_def case_prod_unfold comp_def map_snd_zip)
  then have "distinct (map sym_id (capture_formals vs (next_sym_id st)))"
    by simp
  then show "distinct (capture_formals vs (next_sym_id st))"
    by (simp add: distinct_map)
next
  fix i assume i: "i < length vs"
  show "sym_kind (capture_formals vs (next_sym_id st) ! i) = SYMBOL_ARG INTENT_INOUT"
    using i by (simp add: capture_formals_nth new_formal_def)
  show "sym_type (capture_formals vs (next_sym_id st) ! i) = sym_type (vs ! i)"
    using i by (simp add: capture_formals_nth new_formal_def)
  show "sym_name (capture_formals vs (next_sym_id st) ! i) = sym_name (vs ! i)"
    using i by (simp add: capture_formals_nth new_formal_def)
  show "map_of (zip vs (capture_formals vs (next_sym_id st))) (vs ! i) =
          Some (capture_formals vs (next_sym_id st) ! i)"
    using i assms(2) by (simp add: map_of_zip_nth capture_formals_length)
next
  show "concat (map refs_stmt
            (def_body (fst (addNestedFuncFormals (DefExpr fn_sym formals body) (map Some vs)
                              old_func_sym st)))) =
           map (subst_sym (map_of (zip vs (capture_formals vs (next_sym_id st)))))
             (concat (map refs_stmt body))"
    unfolding addNestedFuncFormals_body [OF assms]
    by (simp add: refs_UpdateSymbols map_concat comp_def)
qed

theorem captured_variables_become_formals_witness:
  "sym_kind (fn_g\<lparr>sym_id := 5\<rparr>) = SYMBOL_FN \<and> distinct [var_x]
   \<and> def_formals (fst (addNestedFuncFormals
         (DefExpr (fn_g\<lparr>sym_id := 5\<rparr>) []
            [ExprStmt (CallExpr (SymExpr fn_writeln) [SymExpr var_x])])
         (map Some [var_x]) fn_g (empty_pass 6))) =
       [DefExpr \<lparr>sym_id = 6, sym_kind = SYMBOL_ARG INTENT_INOUT, sym_name = ''x'',
                 sym_type = ''int''\<rparr> [] []]
   \<and> concat (map refs_stmt (def_body (fst (addNestedFuncFormals
         (DefExpr (fn_g\<lparr>sym_id := 5\<rparr>) []
            [ExprStmt (CallExpr (SymExpr fn_writeln) [SymExpr var_x])])
         (map Some [var_x]) fn_g (empty_pass 6))))) =
       [fn_writeln, \<lparr>sym_id = 6, sym_kind = SYMBOL_ARG INTENT_INOUT, sym_name = ''x'',
                      sym_type = ''int''\<rparr>]"
proof -
  have k: "sym_kind (fn_g\<lparr>sym_id := 5\<rparr>) = SYMBOL_FN"
    by (simp add: fn_g_def)
  have d: "distinct [var_x]"
    by simp
  have cf: "capture_formals [var_x] (next_sym_id (empty_pass 6)) =
              [\<lparr>sym_id = 6, sym_kind = SYMBOL_ARG INTENT_INOUT, sym_name = ''x'',
                sym_type = ''int''\<rparr>]"
    by (simp add: capture_formals_def empty_pass_def new_formal_def var_x_def)
  have ne: "fn_writeln \<noteq> var_x"
    by (simp add: fn_writeln_def var_x_def)
  show ?thesis
    using k d ne
      captured_variables_become_formals [OF k d, of "[]"
        "[ExprStmt (CallExpr (SymExpr fn_writeln) [SymExpr var_x])]" fn_g "empty_pass 6"]
    unfolding cf
    by (simp add: subst_sym_def)
qed

section \<open>The worklist and the substitution after a lift\<close>

lemma postProcessStmt_lift:
  assumes "sym_kind fn_sym = SYMBOL_FN" and "sym_kind p = SYMBOL_FN"
    and "nested_func_args_map st fn_sym = Some cs"
  shows "postProcessStmt p (ExprStmt (DefExpr fn_sym formals body)) st =
     Inr (None,
       (let fn_copy = ExprStmt (fst (addNestedFuncFormals
                         (DefExpr (fn_sym\<lparr>sym_id := next_sym_id st\<rparr>) formals body) cs fn_sym
                         (st\<lparr>next_sym_id := Suc (next_sym_id st)\<rparr>)));
            sym_map = (nested_func_sym_map st)(fn_sym \<mapsto> fn_sym\<lparr>sym_id := next_sym_id st\<rparr>)
        in st\<lparr>nested_func_sym_map := sym_map,
              next_sym_id := Suc (next_sym_id st) + length (filter (\<lambda>c. c \<noteq> None) cs),
              fn_stmts_completed_so_far :=
                (if fn_sym \<in> set (fn_call_worklist st)
                 then map (UpdateSymbols_stmt sym_map) (fn_stmts_completed_so_far st @ [fn_copy])
                 else fn_stmts_completed_so_far st @ [fn_copy])\<rparr>))"
proof -
  have k: "sym_kind (fn_sym\<lparr>sym_id := next_sym_id st\<rparr>) = SYMBOL_FN"
    using assms(1) by simp
  show ?thesis
    using assms
    by (simp add: hasEnclosingFunction_def Let_def split_beta addNestedFuncFormals_snd [OF k]
          del: addNestedFuncFormals.simps)
qed

text \<open>
  C3, as amended. When \<^verbatim>\<open>postProcessStmt\<close> lifts the nested function \<open>fn_sym\<close>,
  it records the association from \<open>fn_sym\<close> to the symbol of the copy; if
  \<open>fn_sym\<close> is on the worklist, it applies the whole association map to every
  statement of \<^verbatim>\<open>_fn_stmts_completed_so_far\<close>, the new copy included, which
  redirects a call whose target is \<open>fn_sym\<close> to the new symbol; otherwise the
  completed statements are left as they were. The worklist is left as it was:
  \<open>fn_sym\<close> stays on it. A later \<^verbatim>\<open>postProcessExpr\<close> changes no association and
  removes nothing from the worklist.
\<close>

theorem lifting_keeps_worklist:
  assumes "sym_kind fn_sym = SYMBOL_FN" and "sym_kind p = SYMBOL_FN"
    and "nested_func_args_map st fn_sym = Some cs"
  shows "\<exists>fn_copy st'.
           postProcessStmt p (ExprStmt (DefExpr fn_sym formals body)) st = Inr (None, st')
         \<and> nested_func_sym_map st' =
             (nested_func_sym_map st)(fn_sym \<mapsto> fn_sym\<lparr>sym_id := next_sym_id st\<rparr>)
         \<and> fn_stmts_completed_so_far st' =
             (if fn_sym \<in> set (fn_call_worklist st)
              then map (UpdateSymbols_stmt (nested_func_sym_map st'))
                     (fn_stmts_completed_so_far st @ [fn_copy])
              else fn_stmts_completed_so_far st @ [fn_copy])
         \<and> UpdateSymbols_expr (nested_func_sym_map st') (CallExpr (SymExpr fn_sym) args) =
             CallExpr (SymExpr (fn_sym\<lparr>sym_id := next_sym_id st\<rparr>))
               (map (UpdateSymbols_expr (nested_func_sym_map st')) args)
         \<and> fn_call_worklist st' = fn_call_worklist st
         \<and> nested_func_sym_map (snd (postProcessExpr e st')) = nested_func_sym_map st'
         \<and> set (fn_call_worklist st') \<subseteq> set (fn_call_worklist (snd (postProcessExpr e st')))"
proof -
  let ?fn_copy = "ExprStmt (fst (addNestedFuncFormals
                    (DefExpr (fn_sym\<lparr>sym_id := next_sym_id st\<rparr>) formals body) cs fn_sym
                    (st\<lparr>next_sym_id := Suc (next_sym_id st)\<rparr>)))"
  let ?sym_map = "(nested_func_sym_map st)(fn_sym \<mapsto> fn_sym\<lparr>sym_id := next_sym_id st\<rparr>)"
  let ?st' = "st\<lparr>nested_func_sym_map := ?sym_map,
                 next_sym_id := Suc (next_sym_id st) + length (filter (\<lambda>c. c \<noteq> None) cs),
                 fn_stmts_completed_so_far :=
                   (if fn_sym \<in> set (fn_call_worklist st)
                    then map (UpdateSymbols_stmt ?sym_map)
                           (fn_stmts_completed_so_far st @ [?fn_copy])
                    else fn_stmts_completed_so_far st @ [?fn_copy])\<rparr>"
  have eq: "postProcessStmt p (ExprStmt (DefExpr fn_sym formals body)) st = Inr (None, ?st')"
    using postProcessStmt_lift [OF assms, of formals body] by (simp only: Let_def)
  show ?thesis
    by (rule exI [of _ ?fn_copy], rule exI [of _ ?st'])
       (simp add: eq subst_sym_def postProcessExpr_state postProcessExpr_worklist
          del: postProcessStmt.simps addNestedFuncFormals.simps)
qed

theorem lifting_keeps_worklist_witness:
  "sym_kind fn_g = SYMBOL_FN \<and> sym_kind fn_f = SYMBOL_FN
   \<and> nested_func_args_map pending_A fn_g = Some [Some var_x]
   \<and> (\<exists>fn_copy st'.
         postProcessStmt fn_f (ExprStmt (DefExpr fn_g [] [])) pending_A = Inr (None, st')
       \<and> nested_func_sym_map st' =
           (nested_func_sym_map pending_A)(fn_g \<mapsto> fn_g\<lparr>sym_id := next_sym_id pending_A\<rparr>)
       \<and> fn_stmts_completed_so_far st' =
           (if fn_g \<in> set (fn_call_worklist pending_A)
            then map (UpdateSymbols_stmt (nested_func_sym_map st'))
                   (fn_stmts_completed_so_far pending_A @ [fn_copy])
            else fn_stmts_completed_so_far pending_A @ [fn_copy])
       \<and> UpdateSymbols_expr (nested_func_sym_map st') (CallExpr (SymExpr fn_g) []) =
           CallExpr (SymExpr (fn_g\<lparr>sym_id := next_sym_id pending_A\<rparr>))
             (map (UpdateSymbols_expr (nested_func_sym_map st')) [])
       \<and> fn_call_worklist st' = fn_call_worklist pending_A
       \<and> nested_func_sym_map (snd (postProcessExpr (SymExpr var_x) st')) = nested_func_sym_map st'
       \<and> set (fn_call_worklist st')
           \<subseteq> set (fn_call_worklist (snd (postProcessExpr (SymExpr var_x) st'))))"
proof -
  have k1: "sym_kind fn_g = SYMBOL_FN"
    by (simp add: fn_g_def)
  have k2: "sym_kind fn_f = SYMBOL_FN"
    by (simp add: fn_f_def)
  have k3: "nested_func_args_map pending_A fn_g = Some [Some var_x]"
    by (simp add: pending_A_def)
  show ?thesis
    using k1 k2 k3 lifting_keeps_worklist [OF k1 k2 k3, of "[]" "[]" "[]" "SymExpr var_x"]
    by blast
qed

text \<open>
  C3 as stated fails. In scenario A the walk reaches the definition of \<open>g\<close> with
  \<open>g\<close> on the worklist; after \<open>g\<close> is lifted the worklist still holds \<open>g\<close>.
\<close>

theorem worklist_entry_stays:
  "map_sum id (fn_call_worklist \<circ> snd) (postProcessStmt fn_f def_of_g pending_A) = Inr [fn_g]"
  by (simp add: def_of_g_def pending_A_def fn_f_def fn_g_def hasEnclosingFunction_def Let_def
        var_x_def fn_writeln_def defineParam_def)

section \<open>Evaluating the pass on the two scenarios\<close>

lemma ctor_A:
  "RemoveNestedFunctions_new uses_A (module_functions scenario_A) 5 =
     Some (Inr ((empty_pass 5)\<lparr>nested_func_args_map := [fn_g \<mapsto> [Some var_x]]\<rparr>))"
  apply (simp add: RemoveNestedFunctions_new_def enclVarUsesHelper_def module_functions_def
      scenario_A_def module_sym_def find_nested_functions_def hasEnclosingFunction_def
      fn_f_def fn_g_def var_x_def fn_writeln_def add_exclusive_def initial_args_map_def empty_pass_def)
  apply (subst fixpoint_loop.simps)
  apply (simp add: find_round_def findEnclScopeVarUses_def getEnclosingFuncVarUses_def uses_A_def
      add_exclusive_def var_x_def)
  apply (subst fixpoint_loop.simps)
  apply (simp add: find_round_def findEnclScopeVarUses_def getEnclosingFuncVarUses_def uses_A_def
      add_exclusive_def var_x_def)
  done

lemma ctor_B:
  "RemoveNestedFunctions_new uses_B (module_functions scenario_B) 5 =
     Some (Inr ((empty_pass 5)\<lparr>nested_func_args_map := [fn_g \<mapsto> []]\<rparr>))"
  apply (simp add: RemoveNestedFunctions_new_def enclVarUsesHelper_def module_functions_def
      scenario_B_def module_sym_def find_nested_functions_def hasEnclosingFunction_def
      fn_f_def fn_g_def var_x_def fn_writeln_def add_exclusive_def initial_args_map_def empty_pass_def)
  apply (subst fixpoint_loop.simps)
  apply (simp add: find_round_def findEnclScopeVarUses_def getEnclosingFuncVarUses_def uses_B_def
      add_exclusive_def var_x_def)
  done

lemma run_scenario_A: "run_pass uses_A 5 scenario_A = Some (Inr lifted_A)"
  unfolding run_pass_def run_traversal_def ctor_A [unfolded module_functions_def]
  by (simp add: scenario_A_def lifted_A_def module_sym_def empty_pass_def postProcessExpr_def
        hasEnclosingFunction_def fn_f_def fn_g_def var_x_def fn_writeln_def add_exclusive_def
        Let_def defineParam_def new_formal_def subst_sym_def)

lemma run_scenario_B: "run_pass uses_B 5 scenario_B = Some (Inr lifted_B)"
  unfolding run_pass_def run_traversal_def ctor_B [unfolded module_functions_def]
  by (simp add: scenario_B_def lifted_B_def module_sym_def empty_pass_def postProcessExpr_def
        hasEnclosingFunction_def fn_f_def fn_g_def var_x_def fn_writeln_def add_exclusive_def
        Let_def defineParam_def new_formal_def subst_sym_def)

text \<open>
  C2. Scenario A, evaluated. Both calls of \<open>g\<close> get the extra argument \<open>x\<close>, and
  the call after the definition is redirected to the lifted symbol (the object 5).
  The call before the definition keeps the old symbol of \<open>g\<close> as its target: the
  substitution of line 37 runs over the lifted copies only, and this call stands
  in the body of \<open>f\<close>, which is not one of them. The output defines no function
  with the old symbol.
\<close>

theorem scenario_A_first_call_not_redirected:
  "run_pass uses_A 5 scenario_A =
     Some (Inr \<lparr>mod_id = 0, mod_name = ''A'', mod_stmts =
       [ExprStmt (DefExpr fn_f []
          [ExprStmt (DefExpr var_x [] []),
           ExprStmt (CallExpr (SymExpr fn_g) [SymExpr var_x]),
           ExprStmt (CallExpr (SymExpr (fn_g\<lparr>sym_id := 5\<rparr>)) [SymExpr var_x])]),
        ExprStmt (DefExpr (fn_g\<lparr>sym_id := 5\<rparr>) [DefExpr (new_formal var_x 6) [] []]
          [ExprStmt (CallExpr (SymExpr fn_writeln) [SymExpr (new_formal var_x 6)])])]\<rparr>)"
  using run_scenario_A by (simp add: lifted_A_def)

text \<open>
  C7. Scenario B, evaluated. The function that captures nothing is moved to the
  end of the module with its formals and its body as they were, and no call gets
  an extra argument; the call after the definition is redirected, the call before
  the definition keeps the old symbol as its target, as in scenario A.
\<close>

theorem scenario_B_first_call_not_redirected:
  "run_pass uses_B 5 scenario_B =
     Some (Inr \<lparr>mod_id = 0, mod_name = ''B'', mod_stmts =
       [ExprStmt (DefExpr fn_f []
          [ExprStmt (DefExpr var_x [] []),
           ExprStmt (CallExpr (SymExpr fn_g) []),
           ExprStmt (CallExpr (SymExpr (fn_g\<lparr>sym_id := 5\<rparr>)) [])]),
        ExprStmt (DefExpr (fn_g\<lparr>sym_id := 5\<rparr>) []
          [ExprStmt (CallExpr (SymExpr fn_writeln) [])])]\<rparr>)"
  using run_scenario_B by (simp add: lifted_B_def)

section \<open>Termination of the capture analysis\<close>


lemma foldl_add_exclusive_distinct: "distinct g \<Longrightarrow> distinct (foldl add_exclusive g i)"
  by (induction i arbitrary: g) (auto simp: add_exclusive_def)

lemma foldl_add_exclusive_prefix: "\<exists>ext. foldl add_exclusive g i = g @ ext"
proof (induction i arbitrary: g)
  case Nil
  show ?case by simp
next
  case (Cons a i)
  obtain ext where e: "foldl add_exclusive (add_exclusive g a) i = add_exclusive g a @ ext"
    using Cons.IH by blast
  show ?case
  proof (cases "a \<in> set g")
    case True
    then have "add_exclusive g a = g" by (simp add: add_exclusive_def)
    with e show ?thesis by simp
  next
    case False
    then have "add_exclusive g a = g @ [a]" by (simp add: add_exclusive_def)
    with e show ?thesis by simp
  qed
qed

lemma compare_round_grows:
  "compare_round fs it gl ch = Inr (gl', ch') \<Longrightarrow> gl f = Some g \<Longrightarrow>
   \<exists>ext. gl' f = Some (g @ ext)"
proof (induction fs arbitrary: gl ch g)
  case Nil
  then show ?case by simp
next
  case (Cons a fs)
  from Cons.prems(1) obtain i ga where i: "it a = Some i" and ga: "gl a = Some ga"
    by (auto split: option.splits)
  show ?case
  proof (cases "length ga \<noteq> length i")
    case True
    with Cons.prems(1) i ga
    have c: "compare_round fs it (gl(a \<mapsto> foldl add_exclusive ga i)) True = Inr (gl', ch')"
      by simp
    show ?thesis
    proof (cases "f = a")
      case True
      obtain e1 where e1: "foldl add_exclusive ga i = ga @ e1"
        using foldl_add_exclusive_prefix by blast
      from Cons.IH [OF c, of "ga @ e1"] True e1
      obtain e2 where "gl' f = Some ((ga @ e1) @ e2)" by auto
      with True ga Cons.prems(2) show ?thesis by auto
    next
      case False
      with Cons.IH [OF c, of g] Cons.prems(2) show ?thesis by simp
    qed
  next
    case False
    with Cons.prems(1) i ga have "compare_round fs it gl ch = Inr (gl', ch')"
      by simp
    from Cons.IH [OF this Cons.prems(2)] show ?thesis .
  qed
qed




lemma initial_args_map_apply:
  "initial_args_map fs m f = (if f \<in> set fs then Some [] else m f)"
  unfolding initial_args_map_def
  by (induction fs arbitrary: m) auto








section \<open>CaptureSets have no duplicates\<close>

lemma compare_round_distinct:
  "compare_round fs it gl ch = Inr (gl', ch') \<Longrightarrow> (\<forall>f g. gl f = Some g \<longrightarrow> distinct g) \<Longrightarrow>
   gl' f = Some g \<Longrightarrow> distinct g"
proof (induction fs arbitrary: gl ch)
  case Nil
  then show ?case by simp
next
  case (Cons a fs)
  from Cons.prems(1) obtain i ga where i: "it a = Some i" and ga: "gl a = Some ga"
    by (auto split: option.splits)
  show ?case
  proof (cases "length ga \<noteq> length i")
    case True
    let ?gl = "gl(a \<mapsto> foldl add_exclusive ga i)"
    from True Cons.prems(1) i ga
    have c: "compare_round fs it ?gl True = Inr (gl', ch')"
      by simp
    have "\<forall>f g. ?gl f = Some g \<longrightarrow> distinct g"
      using Cons.prems(2) ga by (auto simp: foldl_add_exclusive_distinct)
    from Cons.IH [OF c this Cons.prems(3)] show ?thesis .
  next
    case False
    with Cons.prems(1) i ga have "compare_round fs it gl ch = Inr (gl', ch')"
      by simp
    from Cons.IH [OF this Cons.prems(2,3)] show ?thesis .
  qed
qed

lemma fixpoint_loop_distinct_aux:
  assumes "fixpoint_loop fesv fs it gl = Some res"
  shows "(\<forall>f g. gl f = Some g \<longrightarrow> distinct g) \<longrightarrow>
         (\<forall>r f g. res = Inr r \<longrightarrow> r f = Some g \<longrightarrow> distinct g)"
proof (rule fixpoint_loop.raw_induct
    [where P = "\<lambda>fesv fs it gl res. (\<forall>f g. gl f = Some g \<longrightarrow> distinct g) \<longrightarrow>
         (\<forall>r f g. res = Inr r \<longrightarrow> r f = Some g \<longrightarrow> distinct g)",
      OF _ assms], goal_cases)
  case (1 loop fesv fs it gl res)
  let ?it = "find_round fesv fs it"
  show ?case
  proof (intro impI allI)
    fix r f g
    assume d: "\<forall>f g. gl f = Some g \<longrightarrow> distinct g" and res: "res = Inr r" and g: "r f = Some g"
    show "distinct g"
    proof (cases "compare_round fs ?it gl False")
      case (Inl e)
      with 1(2) res show ?thesis by (simp add: Let_def)
    next
      case (Inr x)
      obtain gl' ch where x: "x = (gl', ch)" by (cases x)
      have d': "\<forall>f g. gl' f = Some g \<longrightarrow> distinct g"
        using compare_round_distinct [OF Inr [unfolded x] d] by blast
      show ?thesis
      proof (cases ch)
        case True
        with 1(2) Inr x have "loop fesv fs ?it gl' = Some res"
          by (simp add: Let_def)
        from 1(1) [OF this] d' res g show ?thesis by blast
      next
        case False
        with 1(2) Inr x res have "r = gl'" by (simp add: Let_def)
        with d' g show ?thesis by blast
      qed
    qed
  qed
qed

text \<open>
  X1. Whatever the traversal for the variable uses returns, a CaptureSet that the
  constructor leaves in \<^verbatim>\<open>_nested_func_args_map\<close> has no duplicate entry: the
  vectors start empty and grow by \<^verbatim>\<open>add_exclusive\<close> only.
\<close>

theorem capture_sets_duplicate_free:
  assumes "RemoveNestedFunctions_new fesv all_functions n = Some (Inr st)"
    and "nested_func_args_map st fn_sym = Some g"
  shows "distinct g"
proof -
  let ?fs = "find_nested_functions all_functions"
  let ?m0 = "initial_args_map ?fs Map.empty"
  from assms(1) obtain r where r: "fixpoint_loop fesv ?fs Map.empty ?m0 = Some (Inr r)"
    and st: "nested_func_args_map st = r"
    by (auto simp: RemoveNestedFunctions_new_def enclVarUsesHelper_def Let_def
          split: option.splits sum.splits)
  have "\<forall>f g. ?m0 f = Some g \<longrightarrow> distinct g"
    by (auto simp: initial_args_map_apply split: if_splits)
  with fixpoint_loop_distinct_aux [OF r] assms(2) st show ?thesis
    by blast
qed

theorem capture_sets_duplicate_free_witness:
  "RemoveNestedFunctions_new uses_A (module_functions scenario_A) 5 =
     Some (Inr ((empty_pass 5)\<lparr>nested_func_args_map := [fn_g \<mapsto> [Some var_x]]\<rparr>))
   \<and> nested_func_args_map ((empty_pass 5)\<lparr>nested_func_args_map := [fn_g \<mapsto> [Some var_x]]\<rparr>) fn_g =
       Some [Some var_x]
   \<and> distinct [Some var_x]"
proof -
  have a: "nested_func_args_map ((empty_pass 5)\<lparr>nested_func_args_map := [fn_g \<mapsto> [Some var_x]]\<rparr>)
             fn_g = Some [Some var_x]"
    by simp
  show ?thesis
    using ctor_A a capture_sets_duplicate_free [OF ctor_A a] by simp
qed


section \<open>The CaptureSet lookup at lift time\<close>

lemma covered_simps [simp]:
  "covered m []"
  "covered m (a @ b) = (covered m a \<and> covered m b)"
  "covered m ((f, q) # b) = ((sym_kind q = SYMBOL_FN \<longrightarrow> m f \<noteq> None) \<and> covered m b)"
  by (auto simp: covered_def)

lemma postProcessExpr_def_sym [simp]: "def_sym (fst (postProcessExpr e st)) = def_sym e"
  by (cases e) (auto simp: postProcessExpr_def Let_def split: option.splits expr.splits)

lemma postProcessExpr_DefExpr [simp]: "postProcessExpr (DefExpr s fs body) st = (DefExpr s fs body, st)"
  by (simp add: postProcessExpr_def)

lemma postProcessExpr_SymExpr [simp]: "postProcessExpr (SymExpr s) st = (SymExpr s, st)"
  by (simp add: postProcessExpr_def)

lemma postProcessStmt_not_def [simp]:
  "def_sym e = None \<Longrightarrow> postProcessStmt p (ExprStmt e) st = Inr (Some (ExprStmt e), st)"
  by (cases e) simp_all

lemma postProcessExpr_ex:
  "\<exists>e' st'. postProcessExpr e st = (e', st')
     \<and> nested_func_args_map st' = nested_func_args_map st \<and> def_sym e' = def_sym e"
  using postProcessExpr_state(1) [of e st] postProcessExpr_def_sym [of e st]
  by (cases "postProcessExpr e st") auto

lemma postProcessStmt_args:
  "postProcessStmt p s st = Inr (r, st') \<Longrightarrow> nested_func_args_map st' = nested_func_args_map st"
proof (cases "\<exists>f fs body. s = ExprStmt (DefExpr f fs body)")
  case True
  then obtain f fs body where s: "s = ExprStmt (DefExpr f fs body)" by blast
  assume a: "postProcessStmt p s st = Inr (r, st')"
  show ?thesis
  proof (cases "sym_kind f = SYMBOL_FN \<and> sym_kind p = SYMBOL_FN")
    case True
    with a s obtain cs where cs: "nested_func_args_map st f = Some cs"
      by (auto simp: hasEnclosingFunction_def split: option.splits)
    from True cs a s show ?thesis
      by (auto simp: postProcessStmt_lift Let_def simp del: postProcessStmt.simps)
  next
    case False
    with a s show ?thesis by (auto simp: hasEnclosingFunction_def)
  qed
next
  case False
  assume a: "postProcessStmt p s st = Inr (r, st')"
  from False have "postProcessStmt p s st = Inr (Some s, st)"
    by (cases s; simp) (rename_tac e, case_tac e; simp)
  with a show ?thesis by simp
qed

lemma postProcessStmt_ok:
  assumes "\<And>f fs body. s = ExprStmt (DefExpr f fs body) \<Longrightarrow> sym_kind f = SYMBOL_FN \<Longrightarrow>
             sym_kind p = SYMBOL_FN \<Longrightarrow> nested_func_args_map st f \<noteq> None"
  shows "\<exists>r st'. postProcessStmt p s st = Inr (r, st')"
proof (cases "\<exists>f fs body. s = ExprStmt (DefExpr f fs body)")
  case True
  then obtain f fs body where s: "s = ExprStmt (DefExpr f fs body)" by blast
  show ?thesis
    using assms [OF s] s by (auto simp: hasEnclosingFunction_def Let_def split_beta)
next
  case False
  then have "postProcessStmt p s st = Inr (Some s, st)"
    by (cases s; simp) (rename_tac e, case_tac e; simp)
  then show ?thesis by blast
qed

lemma traverse_total:
  "covered (nested_func_args_map st) (collect_functions_expr p e) \<Longrightarrow>
     \<exists>e' st'. traverse_expr p e st = Inr (e', st')
       \<and> nested_func_args_map st' = nested_func_args_map st \<and> def_sym e' = def_sym e"
  "covered (nested_func_args_map st) (concat (map (collect_functions_expr p) es)) \<Longrightarrow>
     \<exists>es' st'. traverse_exprs p es st = Inr (es', st')
       \<and> nested_func_args_map st' = nested_func_args_map st"
  "covered (nested_func_args_map st) (collect_functions_stmt p s) \<Longrightarrow>
     \<exists>r st'. traverse_stmt p s st = Inr (r, st')
       \<and> nested_func_args_map st' = nested_func_args_map st"
  "covered (nested_func_args_map st) (concat (map (collect_functions_stmt p) ss)) \<Longrightarrow>
     \<exists>ss' st'. traverse_stmts p ss st = Inr (ss', st')
       \<and> nested_func_args_map st' = nested_func_args_map st"
proof (induction p e st and p es st and p s st and p ss st
    rule: traverse_expr_traverse_exprs_traverse_stmt_traverse_stmts.induct)
  case (1 p s st)
  show ?case by simp
next
  case (2 p b args st)
  from 2 obtain b' st1 where b: "traverse_expr p b st = Inr (b', st1)"
    and m1: "nested_func_args_map st1 = nested_func_args_map st"
    by auto
  from 2(2) [OF b refl] 2(3) m1 obtain args' st2 where
    a: "traverse_exprs p args st1 = Inr (args', st2)"
    and m2: "nested_func_args_map st2 = nested_func_args_map st"
    by auto
  show ?case
    using b a m2 postProcessExpr_ex [of "CallExpr b' args'" st2] by auto
next
  case (3 p s formals body st)
  let ?p = "if sym_kind s = SYMBOL_FN then s else p"
  from 3(3) have c1: "covered (nested_func_args_map st) (concat (map (collect_functions_expr ?p) formals))"
    and c2: "covered (nested_func_args_map st) (concat (map (collect_functions_stmt ?p) body))"
    by (auto split: if_splits)
  from 3(1) [OF c1] obtain fs' st1 where f: "traverse_exprs ?p formals st = Inr (fs', st1)"
    and m1: "nested_func_args_map st1 = nested_func_args_map st"
    by auto
  from 3(2) [OF f refl] c2 m1 obtain body' st2 where
    b: "traverse_stmts ?p body st1 = Inr (body', st2)"
    and m2: "nested_func_args_map st2 = nested_func_args_map st"
    by auto
  show ?case
    using f b m2 by simp
next
  case (4 p st)
  show ?case by simp
next
  case (5 p e es st)
  from 5 obtain e' st1 where e: "traverse_expr p e st = Inr (e', st1)"
    and m1: "nested_func_args_map st1 = nested_func_args_map st"
    by auto
  from 5(2) [OF e refl] 5(3) m1 obtain es' st2 where
    a: "traverse_exprs p es st1 = Inr (es', st2)"
    and m2: "nested_func_args_map st2 = nested_func_args_map st"
    by auto
  show ?case
    using e a m2 by simp
next
  case (6 p e st)
  from 6 obtain e' st1 where e: "traverse_expr p e st = Inr (e', st1)"
    and m1: "nested_func_args_map st1 = nested_func_args_map st"
    and d: "def_sym e' = def_sym e"
    by auto
  have "\<exists>r st'. postProcessStmt p (ExprStmt e') st1 = Inr (r, st')"
  proof (rule postProcessStmt_ok)
    fix f fs body
    assume eq: "ExprStmt e' = ExprStmt (DefExpr f fs body)"
      and k: "sym_kind f = SYMBOL_FN" "sym_kind p = SYMBOL_FN"
    from eq d obtain fs0 body0 where "e = DefExpr f fs0 body0"
      by (cases e) auto
    with 6(2) k m1 show "nested_func_args_map st1 f \<noteq> None"
      by simp
  qed
  then obtain r st' where r: "postProcessStmt p (ExprStmt e') st1 = Inr (r, st')"
    by blast
  from postProcessStmt_args [OF r] m1 e r show ?case
    by simp
next
  case (7 p ss st)
  from 7 obtain ss' st1 where "traverse_stmts p ss st = Inr (ss', st1)"
    and "nested_func_args_map st1 = nested_func_args_map st"
    by auto
  then show ?case by simp
next
  case (8 p c ss1 ss2 st)
  from 8 obtain c' st1 where c: "traverse_expr p c st = Inr (c', st1)"
    and m1: "nested_func_args_map st1 = nested_func_args_map st"
    by auto
  from 8(2) [OF c refl] 8(4) m1 obtain ss1' st2 where
    a: "traverse_stmts p ss1 st1 = Inr (ss1', st2)"
    and m2: "nested_func_args_map st2 = nested_func_args_map st"
    by auto
  from 8(3) [OF c refl a refl] 8(4) m2 obtain ss2' st3 where
    b: "traverse_stmts p ss2 st2 = Inr (ss2', st3)"
    and m3: "nested_func_args_map st3 = nested_func_args_map st"
    by auto
  show ?case
    using c a b m3 by simp
next
  case (9 p st)
  show ?case by simp
next
  case (10 p s ss st)
  from 10 obtain r st1 where s: "traverse_stmt p s st = Inr (r, st1)"
    and m1: "nested_func_args_map st1 = nested_func_args_map st"
    by auto
  from 10(2) [OF s refl] 10(3) m1 obtain ss' st2 where
    a: "traverse_stmts p ss st1 = Inr (ss', st2)"
    and m2: "nested_func_args_map st2 = nested_func_args_map st"
    by auto
  show ?case
    using s a m2 by simp
qed

lemma fixpoint_loop_keeps_entries_aux:
  assumes "fixpoint_loop fesv fs it gl = Some res"
  shows "\<forall>r. res = Inr r \<longrightarrow> (\<forall>f. gl f \<noteq> None \<longrightarrow> r f \<noteq> None)"
proof (rule fixpoint_loop.raw_induct
    [where P = "\<lambda>fesv fs it gl res. \<forall>r. res = Inr r \<longrightarrow> (\<forall>f. gl f \<noteq> None \<longrightarrow> r f \<noteq> None)",
      OF _ assms], goal_cases)
  case (1 loop fesv fs it gl res)
  let ?it = "find_round fesv fs it"
  show ?case
  proof (cases "compare_round fs ?it gl False")
    case (Inl e)
    with 1(2) show ?thesis by (auto simp: Let_def)
  next
    case (Inr x)
    obtain gl' ch where x: "x = (gl', ch)" by (cases x)
    have gl': "gl' f \<noteq> None" if "gl f \<noteq> None" for f
    proof -
      from that obtain g where "gl f = Some g" by auto
      from compare_round_grows [OF Inr [unfolded x] this] show ?thesis by auto
    qed
    show ?thesis
    proof (cases ch)
      case True
      with 1(2) Inr x have "loop fesv fs ?it gl' = Some res"
        by (simp add: Let_def)
      from 1(1) [OF this] gl' show ?thesis by blast
    next
      case False
      with 1(2) Inr x gl' show ?thesis by (auto simp: Let_def)
    qed
  qed
qed

lemma fixpoint_loop_keeps_entries:
  "fixpoint_loop fesv fs it gl = Some (Inr r) \<Longrightarrow> gl f \<noteq> None \<Longrightarrow> r f \<noteq> None"
  using fixpoint_loop_keeps_entries_aux by blast

lemma set_add_exclusive: "set (add_exclusive v a) = insert a (set v)"
  by (auto simp: add_exclusive_def)

lemma foldl_add_exclusive_filter:
  "set (foldl (\<lambda>acc (f, q). if P q then add_exclusive acc f else acc) acc fs) =
     set acc \<union> {f. \<exists>q. (f, q) \<in> set fs \<and> P q}"
proof (induction fs arbitrary: acc)
  case Nil
  show ?case by simp
next
  case (Cons a fs)
  obtain f q where a: "a = (f, q)" by (cases a)
  show ?case
    unfolding a by (cases "P q") (auto simp: Cons.IH set_add_exclusive)
qed

lemma find_nested_functions_set:
  "set (find_nested_functions fs) = {f. \<exists>q. (f, q) \<in> set fs \<and> hasEnclosingFunction q \<noteq> None}"
  unfolding find_nested_functions_def
  using foldl_add_exclusive_filter [of "\<lambda>q. hasEnclosingFunction q \<noteq> None" "[]" fs]
  by simp

lemma enclVarUsesHelper_covered:
  assumes "enclVarUsesHelper fesv all_functions st = Some (Inr st')"
  shows "covered (nested_func_args_map st') all_functions"
proof -
  let ?fs = "find_nested_functions all_functions"
  let ?m0 = "initial_args_map ?fs (nested_func_args_map st)"
  from assms obtain r where r: "fixpoint_loop fesv ?fs Map.empty ?m0 = Some (Inr r)"
    and st': "st' = st\<lparr>nested_func_args_map := r\<rparr>"
    by (auto simp: enclVarUsesHelper_def Let_def split: option.splits sum.splits)
  have "r f \<noteq> None" if "(f, q) \<in> set all_functions" "sym_kind q = SYMBOL_FN" for f q
  proof -
    from that have "f \<in> set ?fs"
      by (auto simp: find_nested_functions_set hasEnclosingFunction_def)
    then have "?m0 f \<noteq> None"
      by (simp add: initial_args_map_apply)
    from fixpoint_loop_keeps_entries [OF r this] show ?thesis .
  qed
  then show ?thesis
    by (auto simp: covered_def st')
qed

text \<open>
  C9. Let \<^verbatim>\<open>enclVarUsesHelper\<close> return the state \<open>st\<close> for the functions
  \<open>all_functions\<close> that \<^verbatim>\<open>collect_functions\<close> enumerated. Every one of them whose
  definition has a function as its \<^verbatim>\<open>parentSymbol\<close> (the predicate
  \<^verbatim>\<open>hasEnclosingFunction\<close>, which is also the one \<^verbatim>\<open>postProcessStmt\<close> classifies
  with) has an entry in \<^verbatim>\<open>_nested_func_args_map\<close>. No callback changes the map,
  and in any state that holds this map \<^verbatim>\<open>postProcessStmt\<close> on the definition of
  an enumerated function ends without a null dereference. So does the walk over
  a module whose functions were the ones enumerated.
\<close>

theorem capture_set_lookup_never_null:
  assumes "enclVarUsesHelper fesv all_functions st0 = Some (Inr st)"
  shows "(\<forall>(fn_sym, parentSymbol) \<in> set all_functions.
            hasEnclosingFunction parentSymbol \<noteq> None \<longrightarrow> nested_func_args_map st fn_sym \<noteq> None)
       \<and> (\<forall>p fn_sym formals body st1.
            (fn_sym, p) \<in> set all_functions \<and> nested_func_args_map st1 = nested_func_args_map st
            \<longrightarrow> (\<exists>r st2. postProcessStmt p (ExprStmt (DefExpr fn_sym formals body)) st1 = Inr (r, st2)
                   \<and> nested_func_args_map st2 = nested_func_args_map st))
       \<and> (\<forall>e st1. nested_func_args_map (snd (postProcessExpr e st1)) = nested_func_args_map st1)
       \<and> (\<forall>m. all_functions = module_functions m
            \<longrightarrow> (\<exists>stmts' st'. traverse_stmts (module_sym m) (mod_stmts m) st = Inr (stmts', st')
                   \<and> nested_func_args_map st' = nested_func_args_map st))"
proof (intro conjI allI impI)
  have c: "covered (nested_func_args_map st) all_functions"
    using assms by (rule enclVarUsesHelper_covered)
  then show "\<forall>(fn_sym, parentSymbol) \<in> set all_functions.
            hasEnclosingFunction parentSymbol \<noteq> None \<longrightarrow> nested_func_args_map st fn_sym \<noteq> None"
    by (auto simp: covered_def hasEnclosingFunction_def split: if_splits)
  show "nested_func_args_map (snd (postProcessExpr e st1)) = nested_func_args_map st1" for e st1
    by (rule postProcessExpr_state)
  show "\<exists>r st2. postProcessStmt p (ExprStmt (DefExpr fn_sym formals body)) st1 = Inr (r, st2)
          \<and> nested_func_args_map st2 = nested_func_args_map st"
    if a: "(fn_sym, p) \<in> set all_functions \<and> nested_func_args_map st1 = nested_func_args_map st"
    for p fn_sym formals body st1
  proof -
    have "\<exists>r st2. postProcessStmt p (ExprStmt (DefExpr fn_sym formals body)) st1 = Inr (r, st2)"
    proof (rule postProcessStmt_ok)
      fix f fs b
      assume "ExprStmt (DefExpr fn_sym formals body) = ExprStmt (DefExpr f fs b)"
        and "sym_kind p = SYMBOL_FN"
      with a c show "nested_func_args_map st1 f \<noteq> None"
        by (auto simp: covered_def)
    qed
    then obtain r st2 where
      r: "postProcessStmt p (ExprStmt (DefExpr fn_sym formals body)) st1 = Inr (r, st2)"
      by blast
    from postProcessStmt_args [OF r] a r show ?thesis
      by simp
  qed
  show "\<exists>stmts' st'. traverse_stmts (module_sym m) (mod_stmts m) st = Inr (stmts', st')
          \<and> nested_func_args_map st' = nested_func_args_map st"
    if "all_functions = module_functions m" for m
    using traverse_total(4) [of st "module_sym m" "mod_stmts m"] c that
    by (simp add: module_functions_def)
qed

theorem capture_set_lookup_never_null_witness:
  "enclVarUsesHelper uses_A (module_functions scenario_A) (empty_pass 5) =
     Some (Inr ((empty_pass 5)\<lparr>nested_func_args_map := [fn_g \<mapsto> [Some var_x]]\<rparr>))
   \<and> (\<exists>stmts' st'.
         traverse_stmts (module_sym scenario_A) (mod_stmts scenario_A)
           ((empty_pass 5)\<lparr>nested_func_args_map := [fn_g \<mapsto> [Some var_x]]\<rparr>) = Inr (stmts', st')
       \<and> nested_func_args_map st' = [fn_g \<mapsto> [Some var_x]])"
proof -
  have h: "enclVarUsesHelper uses_A (module_functions scenario_A) (empty_pass 5) =
     Some (Inr ((empty_pass 5)\<lparr>nested_func_args_map := [fn_g \<mapsto> [Some var_x]]\<rparr>))"
    using ctor_A by (simp add: RemoveNestedFunctions_new_def empty_pass_def)
  show ?thesis
    using h capture_set_lookup_never_null [OF h] by simp
qed

section \<open>No nested definition is left, and a second run changes nothing\<close>

lemma no_nested_simps [simp]:
  "no_nested []"
  "no_nested (a @ b) = (no_nested a \<and> no_nested b)"
  "no_nested ((f, q) # b) = (sym_kind q \<noteq> SYMBOL_FN \<and> no_nested b)"
  by (auto simp: no_nested_def)

lemma concat_empty_iff: "concat xss = [] \<longleftrightarrow> (\<forall>xs \<in> set xss. xs = [])"
  by (induction xss) auto

lemma collect_parent_fn:
  "sym_kind p = SYMBOL_FN \<Longrightarrow> (f, q) \<in> set (collect_functions_expr p e) \<Longrightarrow>
     sym_kind q = SYMBOL_FN"
  "sym_kind p = SYMBOL_FN \<Longrightarrow> (f, q) \<in> set (collect_functions_stmt p s) \<Longrightarrow>
     sym_kind q = SYMBOL_FN"
proof (induction p e and p s arbitrary: f q and f q
    rule: collect_functions_expr_collect_functions_stmt.induct)
  case (1 p s)
  then show ?case by simp
next
  case (2 p b args)
  then show ?case by auto
next
  case (3 p s formals body)
  show ?case
  proof (cases "sym_kind s = SYMBOL_FN")
    case True
    with 3(6) have "(f, q) = (s, p) \<or> (\<exists>x \<in> set formals. (f, q) \<in> set (collect_functions_expr s x))
        \<or> (\<exists>x \<in> set body. (f, q) \<in> set (collect_functions_stmt s x))"
      by auto
    with True 3(1,2,5) show ?thesis by blast
  next
    case False
    with 3(6) have "(\<exists>x \<in> set formals. (f, q) \<in> set (collect_functions_expr p x))
        \<or> (\<exists>x \<in> set body. (f, q) \<in> set (collect_functions_stmt p x))"
      by auto
    with False 3(3,4,5) show ?thesis by blast
  qed
next
  case (4 p e)
  then show ?case by simp
next
  case (5 p ss)
  then show ?case by auto
next
  case (6 p c ss1 ss2)
  then show ?case by auto
qed

lemma no_nested_in_fn:
  assumes "sym_kind p = SYMBOL_FN" and "no_nested (concat (map (collect_functions_stmt p) ss))"
  shows "concat (map (collect_functions_stmt p) ss) = []"
proof (cases "concat (map (collect_functions_stmt p) ss)")
  case Nil
  then show ?thesis .
next
  case (Cons a l)
  obtain f q where a: "a = (f, q)" by (cases a)
  from Cons a have "(f, q) \<in> set (concat (map (collect_functions_stmt p) ss))"
    by simp
  then obtain s where "s \<in> set ss" "(f, q) \<in> set (collect_functions_stmt p s)"
    by auto
  from collect_parent_fn(2) [OF assms(1) this(2)] have "sym_kind q = SYMBOL_FN" .
  moreover from assms(2) Cons a have "sym_kind q \<noteq> SYMBOL_FN"
    by simp
  ultimately show ?thesis by simp
qed

lemma collect_empty_any_parent:
  "collect_functions_expr p e = [] \<Longrightarrow> collect_functions_expr q e = []"
  "collect_functions_stmt p s = [] \<Longrightarrow> collect_functions_stmt q s = []"
proof (induction p e and p s arbitrary: q and q
    rule: collect_functions_expr_collect_functions_stmt.induct)
  case (1 p s)
  show ?case by simp
next
  case (2 p b args)
  then show ?case by (simp add: concat_empty_iff)
next
  case (3 p s formals body)
  from 3(5) have k: "sym_kind s \<noteq> SYMBOL_FN"
    by (auto split: if_splits)
  with 3(3,4,5) show ?case by (simp add: concat_empty_iff)
next
  case (4 p e)
  then show ?case by simp
next
  case (5 p ss)
  then show ?case by (simp add: concat_empty_iff)
next
  case (6 p c ss1 ss2)
  then show ?case by (simp add: concat_empty_iff)
qed

lemma collect_UpdateSymbols:
  "collect_functions_expr q (UpdateSymbols_expr m e) = collect_functions_expr q e"
  "collect_functions_stmt q (UpdateSymbols_stmt m s) = collect_functions_stmt q s"
  by (induction m e and m s arbitrary: q and q rule: UpdateSymbols_expr_UpdateSymbols_stmt.induct)
     (auto simp: comp_def cong: map_cong)

lemma fn_free_collect: "fn_free e \<Longrightarrow> collect_functions_expr q e = []"
  by (induction e arbitrary: q rule: fn_free.induct) (auto simp: concat_empty_iff list_all_iff)

lemma fn_free_well_formed: "fn_free e \<Longrightarrow> well_formed (ExprStmt e)"
  by (cases e) auto

lemma fn_free_own_def: "fn_free e \<Longrightarrow> def_sym e' = def_sym e \<Longrightarrow> own_def q e' = []"
  by (cases e) (auto simp: own_def_def)

lemma actuals_loop_collect:
  "concat (map (collect_functions_expr q) (actuals_loop cs args)) =
     concat (map (collect_functions_expr q) args)"
proof (induction cs arbitrary: args)
  case Nil
  show ?case by simp
next
  case (Cons c cs)
  show ?case by (cases c) (simp_all add: Cons.IH)
qed

lemma formals_loop_collect:
  "concat (map (collect_functions_expr q) (fst (formals_loop cs formals um n))) =
     concat (map (collect_functions_expr q) formals)"
proof (induction cs arbitrary: formals um n)
  case Nil
  show ?case by simp
next
  case (Cons c cs)
  show ?case by (cases c) (simp_all add: Cons.IH Let_def defineParam_def)
qed

lemma postProcessExpr_collect:
  "collect_functions_expr q e = [] \<Longrightarrow> collect_functions_expr q (fst (postProcessExpr e st)) = []"
  by (cases e)
     (auto simp: postProcessExpr_def Let_def actuals_loop_collect split: option.splits expr.splits)

lemma addNestedFuncFormals_collect:
  "collect_functions_expr q (fst (addNestedFuncFormals e cs old st)) = collect_functions_expr q e"
  by (cases e)
     (auto simp: Let_def split_beta formals_loop_collect collect_UpdateSymbols comp_def)

lemma collect_own_def_children:
  assumes "\<forall>q. collect_functions_expr q (DefExpr f fs body) = own_def q (DefExpr f fs body)"
    and "sym_kind f = SYMBOL_FN"
  shows "concat (map (collect_functions_expr q) fs) = []"
    and "concat (map (collect_functions_stmt q) body) = []"
proof -
  from assms have e: "concat (map (collect_functions_expr f) fs) = []"
      "concat (map (collect_functions_stmt f) body) = []"
    by (auto simp: own_def_def dest: spec [of _ f])
  from e(1) show "concat (map (collect_functions_expr q) fs) = []"
    by (simp add: concat_empty_iff collect_empty_any_parent(1) [of f _ q])
  from e(2) show "concat (map (collect_functions_stmt q) body) = []"
    by (simp add: concat_empty_iff collect_empty_any_parent(2) [of f _ q])
qed

lemma postProcessStmt_lifted_ok:
  assumes r: "postProcessStmt p (ExprStmt e) st = Inr (r, st')"
    and c: "\<forall>q. collect_functions_expr q e = own_def q e"
  shows "(\<forall>s'. r = Some s' \<longrightarrow> no_nested (collect_functions_stmt p s'))
       \<and> (completed_ok st \<longrightarrow> completed_ok st')"
proof (cases "\<exists>f fs body. e = DefExpr f fs body \<and> sym_kind f = SYMBOL_FN \<and> sym_kind p = SYMBOL_FN")
  case True
  then obtain f fs body where e: "e = DefExpr f fs body" and kf: "sym_kind f = SYMBOL_FN"
    and kp: "sym_kind p = SYMBOL_FN"
    by blast
  from r e kf kp obtain cs where cs: "nested_func_args_map st f = Some cs"
    by (auto simp: hasEnclosingFunction_def split: option.splits)
  let ?f' = "f\<lparr>sym_id := next_sym_id st\<rparr>"
  let ?copy = "ExprStmt (fst (addNestedFuncFormals (DefExpr ?f' fs body) cs f
                 (st\<lparr>next_sym_id := Suc (next_sym_id st)\<rparr>)))"
  let ?sym_map = "(nested_func_sym_map st)(f \<mapsto> ?f')"
  from r have r': "r = None"
    and comp: "fn_stmts_completed_so_far st' =
       (if f \<in> set (fn_call_worklist st)
        then map (UpdateSymbols_stmt ?sym_map) (fn_stmts_completed_so_far st @ [?copy])
        else fn_stmts_completed_so_far st @ [?copy])"
    unfolding e postProcessStmt_lift [OF kf kp cs] by (auto simp: Let_def)
  have e1: "concat (map (collect_functions_expr ?f') fs) = []"
    by (rule collect_own_def_children(1) [OF c [unfolded e] kf])
  have e2: "concat (map (collect_functions_stmt ?f') body) = []"
    by (rule collect_own_def_children(2) [OF c [unfolded e] kf])
  have "collect_functions_stmt q ?copy = [(?f', q)]" for q
    using kf by (simp add: addNestedFuncFormals_collect e1 e2 del: addNestedFuncFormals.simps)
  then have copy: "no_nested (collect_functions_stmt q ?copy)" if "sym_kind q \<noteq> SYMBOL_FN" for q
    using that by simp
  have "completed_ok st'" if "completed_ok st"
    using that copy unfolding completed_ok_def comp
    by (auto simp: collect_UpdateSymbols)
  with r' show ?thesis by simp
next
  case False
  have "postProcessStmt p (ExprStmt e) st = Inr (Some (ExprStmt e), st)"
  proof (cases e)
    case (DefExpr f fs body)
    with False show ?thesis by (auto simp: hasEnclosingFunction_def)
  qed simp_all
  with r have r': "r = Some (ExprStmt e)" and st': "st' = st"
    by simp_all
  have ce: "collect_functions_expr p e = own_def p e"
    using c by blast
  have "no_nested (collect_functions_expr p e)"
    unfolding ce using False by (cases e) (auto simp: own_def_def)
  with r' st' show ?thesis by simp
qed

lemma postProcessStmt_other:
  "\<forall>e. s \<noteq> ExprStmt e \<Longrightarrow> postProcessStmt p s st = Inr (Some s, st)"
  by (cases s) auto

lemma postProcessExpr_completed_ok:
  "completed_ok (snd (postProcessExpr e st)) = completed_ok st"
  by (simp add: completed_ok_def postProcessExpr_state)

lemma traverse_lifts:
  "well_formed (ExprStmt e) \<Longrightarrow> traverse_expr p e st = Inr (e', st') \<Longrightarrow>
     (\<forall>q. collect_functions_expr q e' = own_def q e') \<and> def_sym e' = def_sym e
     \<and> (completed_ok st \<longrightarrow> completed_ok st')"
  "list_all fn_free es \<Longrightarrow> traverse_exprs p es st = Inr (es', st') \<Longrightarrow>
     (\<forall>q. concat (map (collect_functions_expr q) es') = [])
     \<and> (completed_ok st \<longrightarrow> completed_ok st')"
  "well_formed s \<Longrightarrow> traverse_stmt p s st = Inr (r, st') \<Longrightarrow>
     (\<forall>s'. r = Some s' \<longrightarrow> no_nested (collect_functions_stmt p s'))
     \<and> (completed_ok st \<longrightarrow> completed_ok st')"
  "list_all well_formed ss \<Longrightarrow> traverse_stmts p ss st = Inr (ss', st') \<Longrightarrow>
     no_nested (concat (map (collect_functions_stmt p) ss'))
     \<and> (completed_ok st \<longrightarrow> completed_ok st')"
proof (induction p e st and p es st and p s st and p ss st
    arbitrary: e' st' and es' st' and r st' and ss' st'
    rule: traverse_expr_traverse_exprs_traverse_stmt_traverse_stmts.induct)
  case (1 p s st)
  then show ?case by (auto simp: own_def_def)
next
  case (2 p b args st)
  from 2(3) have fb: "fn_free b" and fa: "list_all fn_free args"
    by simp_all
  from 2(4) obtain b' st1 args' st2 where b: "traverse_expr p b st = Inr (b', st1)"
    and a: "traverse_exprs p args st1 = Inr (args', st2)"
    and e': "(e', st') = postProcessExpr (CallExpr b' args') st2"
    by (auto split: sum.splits)
  from 2(1) [OF fn_free_well_formed [OF fb] b]
  have b1: "\<forall>q. collect_functions_expr q b' = own_def q b'" and b2: "def_sym b' = def_sym b"
    and b3: "completed_ok st \<longrightarrow> completed_ok st1"
    by simp_all
  from b1 fn_free_own_def [OF fb b2] have cb: "collect_functions_expr q b' = []" for q
    by simp
  from 2(2) [OF b refl fa a]
  have a1: "\<forall>q. concat (map (collect_functions_expr q) args') = []"
    and a3: "completed_ok st1 \<longrightarrow> completed_ok st2"
    by simp_all
  have "collect_functions_expr q (CallExpr b' args') = []" for q
    using cb [of q] a1 by simp
  then have "collect_functions_expr q e' = []" for q
    using postProcessExpr_collect [of q "CallExpr b' args'" st2] e' [symmetric] by simp
  moreover have "def_sym e' = None"
    using postProcessExpr_def_sym [of "CallExpr b' args'" st2] e' [symmetric] by simp
  moreover have "completed_ok st' = completed_ok st2"
    using postProcessExpr_completed_ok [of "CallExpr b' args'" st2] e' [symmetric] by simp
  ultimately show ?case
    using b3 a3 by (simp add: own_def_def)
next
  case (3 p s formals body st)
  let ?p = "if sym_kind s = SYMBOL_FN then s else p"
  from 3(4) obtain fs' st1 body' where f: "traverse_exprs ?p formals st = Inr (fs', st1)"
    and b: "traverse_stmts ?p body st1 = Inr (body', st')"
    and e': "e' = DefExpr s fs' body'"
    by (auto split: sum.splits)
  show ?case
  proof (cases "sym_kind s = SYMBOL_FN")
    case True
    with 3(3) have wf: "list_all fn_free formals" "list_all well_formed body"
      by simp_all
    from 3(1) [OF wf(1) f]
    have f1: "\<forall>q. concat (map (collect_functions_expr q) fs') = []"
      and f3: "completed_ok st \<longrightarrow> completed_ok st1"
      by simp_all
    from 3(2) [OF f refl wf(2) b]
    have b1: "no_nested (concat (map (collect_functions_stmt ?p) body'))"
      and b3: "completed_ok st1 \<longrightarrow> completed_ok st'"
      by simp_all
    from b1 True have "concat (map (collect_functions_stmt s) body') = []"
      using no_nested_in_fn [of s body'] by simp
    with f1 True e' f3 b3 show ?thesis
      by (simp add: own_def_def)
  next
    case False
    with 3(3) have "formals = []" "body = []"
      by simp_all
    with f b e' False show ?thesis
      by (auto simp: own_def_def)
  qed
next
  case (4 p st)
  then show ?case by simp
next
  case (5 p e es st)
  from 5(3) have fe: "fn_free e" and fes: "list_all fn_free es"
    by simp_all
  from 5(4) obtain e1 st1 es1 where e: "traverse_expr p e st = Inr (e1, st1)"
    and a: "traverse_exprs p es st1 = Inr (es1, st')"
    and es': "es' = e1 # es1"
    by (auto split: sum.splits)
  from 5(1) [OF fn_free_well_formed [OF fe] e]
  have e1: "\<forall>q. collect_functions_expr q e1 = own_def q e1" and e2: "def_sym e1 = def_sym e"
    and e3: "completed_ok st \<longrightarrow> completed_ok st1"
    by simp_all
  from e1 fn_free_own_def [OF fe e2] have ce: "collect_functions_expr q e1 = []" for q
    by simp
  from 5(2) [OF e refl fes a]
  have a1: "\<forall>q. concat (map (collect_functions_expr q) es1) = []"
    and a3: "completed_ok st1 \<longrightarrow> completed_ok st'"
    by simp_all
  show ?case
    using ce a1 e3 a3 es' by simp
next
  case (6 p e st)
  from 6(3) obtain e1 st1 where e: "traverse_expr p e st = Inr (e1, st1)"
    and r: "postProcessStmt p (ExprStmt e1) st1 = Inr (r, st')"
    by (auto split: sum.splits)
  from 6(1) [OF 6(2) e]
  have e1: "\<forall>q. collect_functions_expr q e1 = own_def q e1"
    and e3: "completed_ok st \<longrightarrow> completed_ok st1"
    by simp_all
  from postProcessStmt_lifted_ok [OF r e1] e3 show ?case
    by blast
next
  case (7 p ss st)
  from 7(3) obtain ss1 st1 where s: "traverse_stmts p ss st = Inr (ss1, st1)"
    and r: "postProcessStmt p (BlockStmt ss1) st1 = Inr (r, st')"
    by (auto split: sum.splits)
  from 7(2) have wf: "list_all well_formed ss"
    by simp
  from 7(1) [OF wf s] r show ?case
    by auto
next
  case (8 p c ss1 ss2 st)
  from 8(4) have fc: "fn_free c" and w1: "list_all well_formed ss1"
    and w2: "list_all well_formed ss2"
    by simp_all
  from 8(5) obtain c' st1 ss1' st2 ss2' st3 where c: "traverse_expr p c st = Inr (c', st1)"
    and s1: "traverse_stmts p ss1 st1 = Inr (ss1', st2)"
    and s2: "traverse_stmts p ss2 st2 = Inr (ss2', st3)"
    and r: "postProcessStmt p (CondStmt c' ss1' ss2') st3 = Inr (r, st')"
    by (auto split: sum.splits)
  from 8(1) [OF fn_free_well_formed [OF fc] c]
  have c1: "\<forall>q. collect_functions_expr q c' = own_def q c'" and c2: "def_sym c' = def_sym c"
    and c3: "completed_ok st \<longrightarrow> completed_ok st1"
    by simp_all
  from c1 fn_free_own_def [OF fc c2] have cc: "collect_functions_expr p c' = []"
    by simp
  from 8(2) [OF c refl w1 s1] have a1: "no_nested (concat (map (collect_functions_stmt p) ss1'))"
    and a3: "completed_ok st1 \<longrightarrow> completed_ok st2"
    by simp_all
  from 8(3) [OF c refl s1 refl w2 s2]
  have b1: "no_nested (concat (map (collect_functions_stmt p) ss2'))"
    and b3: "completed_ok st2 \<longrightarrow> completed_ok st3"
    by simp_all
  from r have "r = Some (CondStmt c' ss1' ss2')" "st' = st3"
    by simp_all
  with cc a1 b1 c3 a3 b3 show ?case
    by simp
next
  case (9 p st)
  then show ?case by simp
next
  case (10 p s ss st)
  from 10(3) have ws: "well_formed s" and wss: "list_all well_formed ss"
    by simp_all
  from 10(4) obtain r1 st1 ss1 where s: "traverse_stmt p s st = Inr (r1, st1)"
    and a: "traverse_stmts p ss st1 = Inr (ss1, st')"
    and ss': "ss' = (case r1 of None \<Rightarrow> ss1 | Some s' \<Rightarrow> s' # ss1)"
    by (auto split: sum.splits)
  from 10(1) [OF ws s]
  have s1: "\<forall>s'. r1 = Some s' \<longrightarrow> no_nested (collect_functions_stmt p s')"
    and s3: "completed_ok st \<longrightarrow> completed_ok st1"
    by simp_all
  from 10(2) [OF s refl wss a]
  have a1: "no_nested (concat (map (collect_functions_stmt p) ss1))"
    and a3: "completed_ok st1 \<longrightarrow> completed_ok st'"
    by simp_all
  show ?case
    using s1 a1 s3 a3 ss' by (cases r1) simp_all
qed

lemma run_pass_split:
  assumes "run_pass fesv n m = Some (Inr m')"
  obtains st stmts' st' where
    "RemoveNestedFunctions_new fesv (module_functions m) n = Some (Inr st)"
    "traverse_stmts (module_sym m) (mod_stmts m) st = Inr (stmts', st')"
    "run_traversal fesv n m = Some (Inr (stmts', st'))"
    "m' = m\<lparr>mod_stmts := stmts' @ fn_stmts_completed_so_far st'\<rparr>"
    "fn_stmts_completed_so_far st = []"
  using assms
  by (auto simp: run_pass_def run_traversal_def module_functions_def
        RemoveNestedFunctions_new_def enclVarUsesHelper_def Let_def
        split: option.splits sum.splits)

lemma run_pass_no_nested:
  assumes wf: "list_all well_formed (mod_stmts m)" and run: "run_pass fesv n m = Some (Inr m')"
  shows "no_nested (module_functions m')"
proof -
  from run obtain st stmts' st' where
    t: "traverse_stmts (module_sym m) (mod_stmts m) st = Inr (stmts', st')"
    and m': "m' = m\<lparr>mod_stmts := stmts' @ fn_stmts_completed_so_far st'\<rparr>"
    and c0: "fn_stmts_completed_so_far st = []"
    by (rule run_pass_split)
  have "completed_ok st"
    by (simp add: completed_ok_def c0)
  with traverse_lifts(4) [OF wf t]
  have a: "no_nested (concat (map (collect_functions_stmt (module_sym m)) stmts'))"
    and b: "completed_ok st'"
    by simp_all
  have k: "sym_kind (module_sym m) \<noteq> SYMBOL_FN"
    by (simp add: module_sym_def)
  from b k have "no_nested (concat (map (collect_functions_stmt (module_sym m))
                   (fn_stmts_completed_so_far st')))"
    unfolding completed_ok_def no_nested_def by fastforce
  with a show ?thesis
    by (simp add: module_functions_def m' module_sym_def)
qed


lemma well_formed_A: "list_all well_formed (mod_stmts scenario_A)"
  by (simp add: scenario_A_def fn_f_def fn_g_def var_x_def fn_writeln_def)


lemma postProcessExpr_id:
  "nested_func_args_map st = Map.empty \<Longrightarrow> postProcessExpr e st = (e, st)"
  by (auto simp: postProcessExpr_def split: expr.splits option.splits)

lemma postProcessStmt_id:
  "no_nested (collect_functions_stmt p s) \<Longrightarrow> postProcessStmt p s st = Inr (Some s, st)"
proof (cases "\<exists>e. s = ExprStmt e")
  case True
  then obtain e where s: "s = ExprStmt e" by blast
  assume "no_nested (collect_functions_stmt p s)"
  then show ?thesis
    unfolding s by (cases e) (auto simp: hasEnclosingFunction_def)
next
  case False
  then show ?thesis by (simp add: postProcessStmt_other)
qed

lemma traverse_nothing:
  "nested_func_args_map st = Map.empty \<Longrightarrow> no_nested (collect_functions_expr p e) \<Longrightarrow>
     traverse_expr p e st = Inr (e, st)"
  "nested_func_args_map st = Map.empty \<Longrightarrow>
     no_nested (concat (map (collect_functions_expr p) es)) \<Longrightarrow>
     traverse_exprs p es st = Inr (es, st)"
  "nested_func_args_map st = Map.empty \<Longrightarrow> no_nested (collect_functions_stmt p s) \<Longrightarrow>
     traverse_stmt p s st = Inr (Some s, st)"
  "nested_func_args_map st = Map.empty \<Longrightarrow>
     no_nested (concat (map (collect_functions_stmt p) ss)) \<Longrightarrow>
     traverse_stmts p ss st = Inr (ss, st)"
proof (induction p e st and p es st and p s st and p ss st
    rule: traverse_expr_traverse_exprs_traverse_stmt_traverse_stmts.induct)
  case (1 p s st)
  then show ?case by (simp add: postProcessExpr_id)
next
  case (2 p b args st)
  from 2(4) have nb: "no_nested (collect_functions_expr p b)"
    and na: "no_nested (concat (map (collect_functions_expr p) args))"
    by simp_all
  from 2(1) [OF 2(3) nb] have b: "traverse_expr p b st = Inr (b, st)" .
  from 2(2) [OF b refl 2(3) na] have a: "traverse_exprs p args st = Inr (args, st)" .
  show ?case
    using b a 2(3) by (simp add: postProcessExpr_id)
next
  case (3 p s formals body st)
  let ?p = "if sym_kind s = SYMBOL_FN then s else p"
  from 3(4) have nf: "no_nested (concat (map (collect_functions_expr ?p) formals))"
    and nb: "no_nested (concat (map (collect_functions_stmt ?p) body))"
    by (auto split: if_splits)
  from 3(1) [OF 3(3) nf] have f: "traverse_exprs ?p formals st = Inr (formals, st)" .
  from 3(2) [OF f refl 3(3) nb] have b: "traverse_stmts ?p body st = Inr (body, st)" .
  show ?case
    using f b by simp
next
  case (4 p st)
  show ?case by simp
next
  case (5 p e es st)
  from 5(4) have ne: "no_nested (collect_functions_expr p e)"
    and nes: "no_nested (concat (map (collect_functions_expr p) es))"
    by simp_all
  from 5(1) [OF 5(3) ne] have e: "traverse_expr p e st = Inr (e, st)" .
  from 5(2) [OF e refl 5(3) nes] have a: "traverse_exprs p es st = Inr (es, st)" .
  show ?case
    using e a by simp
next
  case (6 p e st)
  from 6(3) have ne: "no_nested (collect_functions_expr p e)"
    by simp
  from 6(1) [OF 6(2) ne] have e: "traverse_expr p e st = Inr (e, st)" .
  show ?case
    using e postProcessStmt_id [OF 6(3), of st] by (simp del: postProcessStmt.simps)
next
  case (7 p ss st)
  from 7(3) have n: "no_nested (concat (map (collect_functions_stmt p) ss))"
    by simp
  from 7(1) [OF 7(2) n] show ?case by simp
next
  case (8 p c ss1 ss2 st)
  from 8(5) have nc: "no_nested (collect_functions_expr p c)"
    and n1: "no_nested (concat (map (collect_functions_stmt p) ss1))"
    and n2: "no_nested (concat (map (collect_functions_stmt p) ss2))"
    by simp_all
  from 8(1) [OF 8(4) nc] have c: "traverse_expr p c st = Inr (c, st)" .
  from 8(2) [OF c refl 8(4) n1] have a: "traverse_stmts p ss1 st = Inr (ss1, st)" .
  from 8(3) [OF c refl a refl 8(4) n2] have b: "traverse_stmts p ss2 st = Inr (ss2, st)" .
  show ?case
    using c a b by simp
next
  case (9 p st)
  show ?case by simp
next
  case (10 p s ss st)
  from 10(4) have ns: "no_nested (collect_functions_stmt p s)"
    and nss: "no_nested (concat (map (collect_functions_stmt p) ss))"
    by simp_all
  from 10(1) [OF 10(3) ns] have s: "traverse_stmt p s st = Inr (Some s, st)" .
  from 10(2) [OF s refl 10(3) nss] have a: "traverse_stmts p ss st = Inr (ss, st)" .
  show ?case
    using s a by simp
qed

lemma find_nested_functions_none:
  assumes "no_nested fs"
  shows "find_nested_functions fs = []"
proof -
  have "set (find_nested_functions fs) = {}"
    using assms unfolding find_nested_functions_set no_nested_def
    by (auto simp: hasEnclosingFunction_def)
  then show ?thesis by simp
qed

lemma fixpoint_loop_no_functions:
  "fixpoint_loop fesv [] it gl = Some (Inr gl)"
  by (subst fixpoint_loop.simps) (simp add: find_round_def)

lemma second_run:
  assumes "no_nested (module_functions m)"
  shows "run_traversal fesv n m = Some (Inr (mod_stmts m, empty_pass n))"
proof -
  have "RemoveNestedFunctions_new fesv (module_functions m) n = Some (Inr (empty_pass n))"
    by (simp add: RemoveNestedFunctions_new_def enclVarUsesHelper_def
          find_nested_functions_none [OF assms] initial_args_map_def fixpoint_loop_no_functions
          empty_pass_def)
  moreover have "traverse_stmts (module_sym m) (mod_stmts m) (empty_pass n) =
                   Inr (mod_stmts m, empty_pass n)"
    using assms by (intro traverse_nothing(4)) (simp_all add: empty_pass_def module_functions_def)
  ultimately show ?thesis
    by (simp add: run_traversal_def module_functions_def)
qed

lemma count_nested_simps [simp]:
  "count_nested [] = 0"
  "count_nested (a @ b) = count_nested a + count_nested b"
  "count_nested ((f, q) # b) = (if sym_kind q = SYMBOL_FN then 1 else 0) + count_nested b"
  by (simp_all add: count_nested_def)

lemma own_def_cong: "def_sym e' = def_sym e \<Longrightarrow> own_def p e' = own_def p e"
  by (simp add: own_def_def)

lemma postProcessStmt_count:
  assumes "postProcessStmt p (ExprStmt e) st = Inr (r, st')"
  shows "length (fn_stmts_completed_so_far st') =
           length (fn_stmts_completed_so_far st) + count_nested (own_def p e)"
proof (cases "\<exists>f fs body. e = DefExpr f fs body \<and> sym_kind f = SYMBOL_FN \<and> sym_kind p = SYMBOL_FN")
  case True
  then obtain f fs body where e: "e = DefExpr f fs body" and kf: "sym_kind f = SYMBOL_FN"
    and kp: "sym_kind p = SYMBOL_FN"
    by blast
  from assms e kf kp obtain cs where cs: "nested_func_args_map st f = Some cs"
    by (auto simp: hasEnclosingFunction_def split: option.splits)
  from assms show ?thesis
    unfolding e postProcessStmt_lift [OF kf kp cs]
    using kf kp by (auto simp: Let_def own_def_def)
next
  case False
  have "postProcessStmt p (ExprStmt e) st = Inr (Some (ExprStmt e), st)"
  proof (cases e)
    case (DefExpr f fs body)
    with False show ?thesis by (auto simp: hasEnclosingFunction_def)
  qed simp_all
  with assms have "st' = st" by simp
  moreover have "count_nested (own_def p e) = 0"
    using False by (cases e) (auto simp: own_def_def)
  ultimately show ?thesis by simp
qed

lemma traverse_count:
  "well_formed (ExprStmt e) \<Longrightarrow> traverse_expr p e st = Inr (e', st') \<Longrightarrow>
     length (fn_stmts_completed_so_far st') + count_nested (own_def p e) =
       length (fn_stmts_completed_so_far st) + count_nested (collect_functions_expr p e)"
  "list_all fn_free es \<Longrightarrow> traverse_exprs p es st = Inr (es', st') \<Longrightarrow>
     length (fn_stmts_completed_so_far st') = length (fn_stmts_completed_so_far st)"
  "well_formed s \<Longrightarrow> traverse_stmt p s st = Inr (r, st') \<Longrightarrow>
     length (fn_stmts_completed_so_far st') =
       length (fn_stmts_completed_so_far st) + count_nested (collect_functions_stmt p s)"
  "list_all well_formed ss \<Longrightarrow> traverse_stmts p ss st = Inr (ss', st') \<Longrightarrow>
     length (fn_stmts_completed_so_far st') =
       length (fn_stmts_completed_so_far st)
         + count_nested (concat (map (collect_functions_stmt p) ss))"
proof (induction p e st and p es st and p s st and p ss st
    arbitrary: e' st' and es' st' and r st' and ss' st'
    rule: traverse_expr_traverse_exprs_traverse_stmt_traverse_stmts.induct)
  case (1 p s st)
  then show ?case by (auto simp: own_def_def)
next
  case (2 p b args st)
  from 2(3) have fb: "fn_free b" and fa: "list_all fn_free args"
    by simp_all
  from 2(4) obtain b' st1 args' st2 where b: "traverse_expr p b st = Inr (b', st1)"
    and a: "traverse_exprs p args st1 = Inr (args', st2)"
    and e': "(e', st') = postProcessExpr (CallExpr b' args') st2"
    by (auto split: sum.splits)
  have "count_nested (own_def p b) = 0" "count_nested (collect_functions_expr p b) = 0"
    using fb by (simp_all add: fn_free_own_def [OF fb refl] fn_free_collect)
  with 2(1) [OF fn_free_well_formed [OF fb] b]
  have l1: "length (fn_stmts_completed_so_far st1) = length (fn_stmts_completed_so_far st)"
    by simp
  from 2(2) [OF b refl fa a]
  have l2: "length (fn_stmts_completed_so_far st2) = length (fn_stmts_completed_so_far st1)" .
  have l3: "fn_stmts_completed_so_far st' = fn_stmts_completed_so_far st2"
    using postProcessExpr_state(3) [of "CallExpr b' args'" st2] e' [symmetric] by simp
  have fc: "fn_free (CallExpr b args)"
    using fb fa by simp
  have "count_nested (collect_functions_expr p (CallExpr b args)) = 0"
    by (simp only: fn_free_collect [OF fc] count_nested_simps)
  then show ?case
    using l1 l2 l3 by (simp add: own_def_def del: collect_functions_expr.simps)
next
  case (3 p s formals body st)
  let ?p = "if sym_kind s = SYMBOL_FN then s else p"
  from 3(4) obtain fs' st1 body' where f: "traverse_exprs ?p formals st = Inr (fs', st1)"
    and b: "traverse_stmts ?p body st1 = Inr (body', st')"
    by (auto split: sum.splits)
  show ?case
  proof (cases "sym_kind s = SYMBOL_FN")
    case True
    with 3(3) have wf: "list_all fn_free formals" "list_all well_formed body"
      by simp_all
    from 3(1) [OF wf(1) f]
    have l1: "length (fn_stmts_completed_so_far st1) = length (fn_stmts_completed_so_far st)" .
    from 3(2) [OF f refl wf(2) b] True
    have l2: "length (fn_stmts_completed_so_far st') =
                length (fn_stmts_completed_so_far st1)
                  + count_nested (concat (map (collect_functions_stmt s) body))"
      by simp
    have cf: "concat (map (collect_functions_expr s) formals) = []"
      using wf(1) by (simp add: concat_empty_iff list_all_iff fn_free_collect)
    from True l1 l2 show ?thesis
      by (simp add: own_def_def cf)
  next
    case False
    with 3(3) have "formals = []" "body = []"
      by simp_all
    with f b False show ?thesis
      by (auto simp: own_def_def)
  qed
next
  case (4 p st)
  then show ?case by simp
next
  case (5 p e es st)
  from 5(3) have fe: "fn_free e" and fes: "list_all fn_free es"
    by simp_all
  from 5(4) obtain e1 st1 es1 where e: "traverse_expr p e st = Inr (e1, st1)"
    and a: "traverse_exprs p es st1 = Inr (es1, st')"
    by (auto split: sum.splits)
  have "count_nested (own_def p e) = 0" "count_nested (collect_functions_expr p e) = 0"
    using fe by (simp_all add: fn_free_own_def [OF fe refl] fn_free_collect)
  with 5(1) [OF fn_free_well_formed [OF fe] e]
  have l1: "length (fn_stmts_completed_so_far st1) = length (fn_stmts_completed_so_far st)"
    by simp
  from 5(2) [OF e refl fes a] l1 show ?case
    by simp
next
  case (6 p e st)
  from 6(3) obtain e1 st1 where e: "traverse_expr p e st = Inr (e1, st1)"
    and r: "postProcessStmt p (ExprStmt e1) st1 = Inr (r, st')"
    by (auto split: sum.splits)
  from traverse_lifts(1) [OF 6(2) e] have "def_sym e1 = def_sym e"
    by simp
  then have o: "own_def p e1 = own_def p e"
    by (rule own_def_cong)
  from 6(1) [OF 6(2) e] postProcessStmt_count [OF r] o show ?case
    by simp
next
  case (7 p ss st)
  from 7(3) obtain ss1 st1 where s: "traverse_stmts p ss st = Inr (ss1, st1)"
    and r: "postProcessStmt p (BlockStmt ss1) st1 = Inr (r, st')"
    by (auto split: sum.splits)
  from 7(2) have wf: "list_all well_formed ss"
    by simp
  from 7(1) [OF wf s] r show ?case
    by auto
next
  case (8 p c ss1 ss2 st)
  from 8(4) have fc: "fn_free c" and w1: "list_all well_formed ss1"
    and w2: "list_all well_formed ss2"
    by simp_all
  from 8(5) obtain c' st1 ss1' st2 ss2' st3 where c: "traverse_expr p c st = Inr (c', st1)"
    and s1: "traverse_stmts p ss1 st1 = Inr (ss1', st2)"
    and s2: "traverse_stmts p ss2 st2 = Inr (ss2', st3)"
    and r: "postProcessStmt p (CondStmt c' ss1' ss2') st3 = Inr (r, st')"
    by (auto split: sum.splits)
  have z: "count_nested (own_def p c) = 0" "count_nested (collect_functions_expr p c) = 0"
    using fc by (simp_all add: fn_free_own_def [OF fc refl] fn_free_collect)
  with 8(1) [OF fn_free_well_formed [OF fc] c]
  have l1: "length (fn_stmts_completed_so_far st1) = length (fn_stmts_completed_so_far st)"
    by simp
  note l2 = 8(2) [OF c refl w1 s1]
  note l3 = 8(3) [OF c refl s1 refl w2 s2]
  from r have "st' = st3"
    by simp
  with l1 l2 l3 z show ?case
    by simp
next
  case (9 p st)
  then show ?case by simp
next
  case (10 p s ss st)
  from 10(3) have ws: "well_formed s" and wss: "list_all well_formed ss"
    by simp_all
  from 10(4) obtain r1 st1 ss1 where s: "traverse_stmt p s st = Inr (r1, st1)"
    and a: "traverse_stmts p ss st1 = Inr (ss1, st')"
    by (auto split: sum.splits)
  from 10(1) [OF ws s] 10(2) [OF s refl wss a] show ?case
    by simp
qed

text \<open>
  C5. Let the pass run on a well-formed module \<open>m\<close> and give \<open>m'\<close>. A second
  run, on \<open>m'\<close>, with any traversal for the variable uses and any first free
  identity, gives \<open>m'\<close> again: its walk leaves every statement as it is (no
  formal and no actual is added) and ends in the state it started in, with no
  lifted copy, no association and an empty worklist. In the first run the
  number of lifted copies is the number of nested definitions of \<open>m\<close>: each is
  lifted once.
\<close>

theorem pass_idempotent:
  assumes "list_all well_formed (mod_stmts m)" and "run_pass fesv n m = Some (Inr m')"
  shows "run_pass fesv' n' m' = Some (Inr m')
       \<and> run_traversal fesv' n' m' = Some (Inr (mod_stmts m', empty_pass n'))
       \<and> (\<exists>stmts' st'. run_traversal fesv n m = Some (Inr (stmts', st'))
             \<and> length (fn_stmts_completed_so_far st') = length (nested_definitions m))"
proof (intro conjI)
  have nn: "no_nested (module_functions m')"
    using assms by (rule run_pass_no_nested)
  show t2: "run_traversal fesv' n' m' = Some (Inr (mod_stmts m', empty_pass n'))"
    using nn by (rule second_run)
  then show "run_pass fesv' n' m' = Some (Inr m')"
    by (simp add: run_pass_def empty_pass_def)
  from assms(2) obtain st stmts' st' where
    t: "traverse_stmts (module_sym m) (mod_stmts m) st = Inr (stmts', st')"
    and rt: "run_traversal fesv n m = Some (Inr (stmts', st'))"
    and c0: "fn_stmts_completed_so_far st = []"
    by (rule run_pass_split)
  from traverse_count(4) [OF assms(1) t] c0
  have "length (fn_stmts_completed_so_far st') = length (nested_definitions m)"
    by (simp add: nested_definitions_def module_functions_def count_nested_def)
  with rt show "\<exists>stmts' st'. run_traversal fesv n m = Some (Inr (stmts', st'))
             \<and> length (fn_stmts_completed_so_far st') = length (nested_definitions m)"
    by blast
qed


theorem pass_idempotent_witness:
  "list_all well_formed (mod_stmts scenario_A)
   \<and> run_pass uses_A 5 scenario_A = Some (Inr lifted_A)
   \<and> run_pass uses_B 7 lifted_A = Some (Inr lifted_A)
   \<and> run_traversal uses_B 7 lifted_A = Some (Inr (mod_stmts lifted_A, empty_pass 7))"
  using well_formed_A run_scenario_A
    pass_idempotent [OF well_formed_A run_scenario_A, of uses_B 7]
  by simp

end
